theory Spec2Isabelle
  imports Complex_Main "HOL-Library.Multiset" "HOL-Library.Sublist"
begin

section \<open>Python values\<close>

text \<open>
  A Python \<open>str\<close> is a sequence of Unicode code points. The region names of the
  repository are Chinese, so a string is modelled as the list of its code points
  (natural numbers), not as a list of 8-bit characters. \<open>ascii\<close> embeds an ASCII
  literal.
\<close>

type_synonym ustr = "nat list"

definition ascii :: "string \<Rightarrow> ustr" where
  "ascii s = map of_char s"

text \<open>
  The exceptions the modelled code can raise. \<open>JSONDecodeError\<close> is a subclass of
  \<open>ValueError\<close> in Python, but an \<open>except json.JSONDecodeError\<close> clause catches only
  the former, so the two are kept apart.
\<close>

datatype error =
    JSONDecodeError | KeyError | TypeError | ValueError
  | AttributeError | OverflowError | OSError

text \<open>
  A Python \<open>float\<close> is a finite binary fraction (a rational), or one of the three
  special values, all of which \<open>json.loads\<close> accepts (\<open>NaN\<close>, \<open>Infinity\<close>,
  \<open>-Infinity\<close>).
\<close>

datatype pyfloat = Fin rat | NaN | PosInf | NegInf

text \<open>
  What \<open>json.load\<close> / \<open>json.loads\<close> return. A JSON object becomes a \<open>dict\<close>,
  represented by an association list read with \<open>map_of\<close>.
\<close>

datatype json =
    JNull
  | JBool bool
  | JInt int
  | JFloat pyfloat
  | JStr ustr
  | JArr "json list"
  | JObj "(ustr \<times> json) list"

text \<open>
  One line of a JSONL file, after \<open>json.loads(line.strip())\<close>: either the decoder
  raised \<open>JSONDecodeError\<close>, or it returned a value. (On input nested thousands
  of levels deep the decoder raises \<open>RecursionError\<close> instead; such lines are not
  represented.)
\<close>

datatype line = Malformed | Decoded json

definition ebind :: "error + 'a \<Rightarrow> ('a \<Rightarrow> error + 'b) \<Rightarrow> error + 'b" where
  "ebind m f = (case m of Inl e \<Rightarrow> Inl e | Inr x \<Rightarrow> f x)"

text \<open>\<open>record.get(key, default)\<close>: only a \<open>dict\<close> has the method.\<close>

definition py_get :: "json \<Rightarrow> ustr \<Rightarrow> json \<Rightarrow> error + json" where
  "py_get record k dflt =
     (case record of
        JObj kvs \<Rightarrow> (case map_of kvs k of None \<Rightarrow> Inr dflt | Some v \<Rightarrow> Inr v)
      | _ \<Rightarrow> Inl AttributeError)"

text \<open>\<open>item[key]\<close> with a string key: \<open>KeyError\<close> on a dict without the key,
  \<open>TypeError\<close> on every other JSON value (lists and strings need integer indices,
  the rest is not subscriptable).\<close>

definition py_subscript :: "json \<Rightarrow> ustr \<Rightarrow> error + json" where
  "py_subscript item k =
     (case item of
        JObj kvs \<Rightarrow> (case map_of kvs k of None \<Rightarrow> Inl KeyError | Some v \<Rightarrow> Inr v)
      | _ \<Rightarrow> Inl TypeError)"

text \<open>Truth value of a Python object, as \<open>not date_str\<close> tests it.\<close>

fun py_truthy :: "json \<Rightarrow> bool" where
  "py_truthy JNull = False"
| "py_truthy (JBool b) = b"
| "py_truthy (JInt n) = (n \<noteq> 0)"
| "py_truthy (JFloat f) = (f \<noteq> Fin 0)"
| "py_truthy (JStr s) = (s \<noteq> [])"
| "py_truthy (JArr xs) = (xs \<noteq> [])"
| "py_truthy (JObj kvs) = (kvs \<noteq> [])"

subsection \<open>Dictionaries that are updated in place\<close>

text \<open>
  A \<open>dict\<close> that the code builds up is an association list in insertion
  order, with each key once. \<open>dict_setdefault\<close> is the guarded insertion
  \<open>if k not in d: d[k] = v\<close>; \<open>dict_modify\<close> is an in-place update
  \<open>d[k] = f(d[k])\<close> of a key that is present.
\<close>

definition dict_setdefault :: "'k \<Rightarrow> 'v \<Rightarrow> ('k \<times> 'v) list \<Rightarrow> ('k \<times> 'v) list" where
  "dict_setdefault k v d = (if k \<in> fst ` set d then d else d @ [(k, v)])"

definition dict_modify :: "'k \<Rightarrow> ('v \<Rightarrow> 'v) \<Rightarrow> ('k \<times> 'v) list \<Rightarrow> ('k \<times> 'v) list" where
  "dict_modify k f d = map (\<lambda>(k', v). if k' = k then (k', f v) else (k', v)) d"

subsection \<open>Character classes\<close>

text \<open>
  \<open>str.isspace\<close>, which is also the class \<open>\s\<close> of \<open>re\<close> on \<open>str\<close> patterns
  (Unicode 14).
\<close>

definition is_space :: "nat \<Rightarrow> bool" where
  "is_space c \<longleftrightarrow>
     (9 \<le> c \<and> c \<le> 13) \<or> (28 \<le> c \<and> c \<le> 32) \<or> c = 133 \<or> c = 160 \<or> c = 5760
     \<or> (8192 \<le> c \<and> c \<le> 8202) \<or> c = 8232 \<or> c = 8233 \<or> c = 8239 \<or> c = 8287
     \<or> c = 12288"

section \<open>Canonical region table\<close>

text \<open>
  \<open>CHINA_PROVINCES\<close> and \<open>CHINA_PROVINCES_MAP\<close> of \<open>statistics.py\<close> (the copies in
  \<open>statistics_only_weibo.py\<close> are identical). Each string is given by its code
  points; the comments give the reading.
\<close>

definition CHINA_PROVINCES :: "ustr list" where
  "CHINA_PROVINCES =
    [ [0x5317, 0x4EAC] \<comment> \<open>Beijing\<close>,
      [0x5929, 0x6D25] \<comment> \<open>Tianjin\<close>,
      [0x4E0A, 0x6D77] \<comment> \<open>Shanghai\<close>,
      [0x91CD, 0x5E86] \<comment> \<open>Chongqing\<close>,
      [0x6CB3, 0x5317] \<comment> \<open>Hebei\<close>,
      [0x5C71, 0x897F] \<comment> \<open>Shanxi\<close>,
      [0x8FBD, 0x5B81] \<comment> \<open>Liaoning\<close>,
      [0x5409, 0x6797] \<comment> \<open>Jilin\<close>,
      [0x9ED1, 0x9F99, 0x6C5F] \<comment> \<open>Heilongjiang\<close>,
      [0x6C5F, 0x82CF] \<comment> \<open>Jiangsu\<close>,
      [0x6D59, 0x6C5F] \<comment> \<open>Zhejiang\<close>,
      [0x5B89, 0x5FBD] \<comment> \<open>Anhui\<close>,
      [0x798F, 0x5EFA] \<comment> \<open>Fujian\<close>,
      [0x6C5F, 0x897F] \<comment> \<open>Jiangxi\<close>,
      [0x5C71, 0x4E1C] \<comment> \<open>Shandong\<close>,
      [0x6CB3, 0x5357] \<comment> \<open>Henan\<close>,
      [0x6E56, 0x5317] \<comment> \<open>Hubei\<close>,
      [0x6E56, 0x5357] \<comment> \<open>Hunan\<close>,
      [0x5E7F, 0x4E1C] \<comment> \<open>Guangdong\<close>,
      [0x6D77, 0x5357] \<comment> \<open>Hainan\<close>,
      [0x56DB, 0x5DDD] \<comment> \<open>Sichuan\<close>,
      [0x8D35, 0x5DDE] \<comment> \<open>Guizhou\<close>,
      [0x4E91, 0x5357] \<comment> \<open>Yunnan\<close>,
      [0x9655, 0x897F] \<comment> \<open>Shaanxi\<close>,
      [0x7518, 0x8083] \<comment> \<open>Gansu\<close>,
      [0x9752, 0x6D77] \<comment> \<open>Qinghai\<close>,
      [0x5185, 0x8499, 0x53E4] \<comment> \<open>Nei Menggu\<close>,
      [0x5E7F, 0x897F] \<comment> \<open>Guangxi\<close>,
      [0x897F, 0x85CF] \<comment> \<open>Xizang\<close>,
      [0x5B81, 0x590F] \<comment> \<open>Ningxia\<close>,
      [0x65B0, 0x7586] \<comment> \<open>Xinjiang\<close>,
      [0x4E2D, 0x56FD, 0x9999, 0x6E2F] \<comment> \<open>Zhongguo Xianggang\<close>,
      [0x4E2D, 0x56FD, 0x6FB3, 0x95E8] \<comment> \<open>Zhongguo Aomen\<close>,
      [0x4E2D, 0x56FD, 0x53F0, 0x6E7E] \<comment> \<open>Zhongguo Taiwan\<close> ]"

definition CHINA_PROVINCES_MAP :: "(ustr \<times> ustr) list" where
  "CHINA_PROVINCES_MAP =
    [ ([0x5317, 0x4EAC], [0x5317, 0x4EAC, 0x5E02]) \<comment> \<open>Beijing: Beijing shi\<close>,
      ([0x5929, 0x6D25], [0x5929, 0x6D25, 0x5E02]) \<comment> \<open>Tianjin: Tianjin shi\<close>,
      ([0x4E0A, 0x6D77], [0x4E0A, 0x6D77, 0x5E02]) \<comment> \<open>Shanghai: Shanghai shi\<close>,
      ([0x91CD, 0x5E86], [0x91CD, 0x5E86, 0x5E02]) \<comment> \<open>Chongqing: Chongqing shi\<close>,
      ([0x6CB3, 0x5317], [0x6CB3, 0x5317, 0x7701]) \<comment> \<open>Hebei: Hebei sheng\<close>,
      ([0x5C71, 0x897F], [0x5C71, 0x897F, 0x7701]) \<comment> \<open>Shanxi: Shanxi sheng\<close>,
      ([0x8FBD, 0x5B81], [0x8FBD, 0x5B81, 0x7701]) \<comment> \<open>Liaoning: Liaoning sheng\<close>,
      ([0x5409, 0x6797], [0x5409, 0x6797, 0x7701]) \<comment> \<open>Jilin: Jilin sheng\<close>,
      ([0x9ED1, 0x9F99, 0x6C5F], [0x9ED1, 0x9F99, 0x6C5F, 0x7701])
        \<comment> \<open>Heilongjiang: Heilongjiang sheng\<close>,
      ([0x6C5F, 0x82CF], [0x6C5F, 0x82CF, 0x7701]) \<comment> \<open>Jiangsu: Jiangsu sheng\<close>,
      ([0x6D59, 0x6C5F], [0x6D59, 0x6C5F, 0x7701]) \<comment> \<open>Zhejiang: Zhejiang sheng\<close>,
      ([0x5B89, 0x5FBD], [0x5B89, 0x5FBD, 0x7701]) \<comment> \<open>Anhui: Anhui sheng\<close>,
      ([0x798F, 0x5EFA], [0x798F, 0x5EFA, 0x7701]) \<comment> \<open>Fujian: Fujian sheng\<close>,
      ([0x6C5F, 0x897F], [0x6C5F, 0x897F, 0x7701]) \<comment> \<open>Jiangxi: Jiangxi sheng\<close>,
      ([0x5C71, 0x4E1C], [0x5C71, 0x4E1C, 0x7701]) \<comment> \<open>Shandong: Shandong sheng\<close>,
      ([0x6CB3, 0x5357], [0x6CB3, 0x5357]) \<comment> \<open>Henan: Henan\<close>,
      ([0x6E56, 0x5317], [0x6E56, 0x5317, 0x7701]) \<comment> \<open>Hubei: Hubei sheng\<close>,
      ([0x6E56, 0x5357], [0x6E56, 0x5357, 0x7701]) \<comment> \<open>Hunan: Hunan sheng\<close>,
      ([0x5E7F, 0x4E1C], [0x5E7F, 0x4E1C, 0x7701]) \<comment> \<open>Guangdong: Guangdong sheng\<close>,
      ([0x6D77, 0x5357], [0x6D77, 0x5357, 0x7701]) \<comment> \<open>Hainan: Hainan sheng\<close>,
      ([0x56DB, 0x5DDD], [0x56DB, 0x5DDD, 0x7701]) \<comment> \<open>Sichuan: Sichuan sheng\<close>,
      ([0x8D35, 0x5DDE], [0x8D35, 0x5DDE, 0x7701]) \<comment> \<open>Guizhou: Guizhou sheng\<close>,
      ([0x4E91, 0x5357], [0x4E91, 0x5357, 0x7701]) \<comment> \<open>Yunnan: Yunnan sheng\<close>,
      ([0x9655, 0x897F], [0x9655, 0x897F, 0x7701]) \<comment> \<open>Shaanxi: Shaanxi sheng\<close>,
      ([0x7518, 0x8083], [0x7518, 0x8083, 0x7701]) \<comment> \<open>Gansu: Gansu sheng\<close>,
      ([0x9752, 0x6D77], [0x9752, 0x6D77, 0x7701]) \<comment> \<open>Qinghai: Qinghai sheng\<close>,
      ([0x5185, 0x8499, 0x53E4], [0x5185, 0x8499, 0x53E4, 0x81EA, 0x6CBB, 0x533A])
        \<comment> \<open>Nei Menggu: Nei Menggu zizhiqu\<close>,
      ([0x5E7F, 0x897F], [0x5E7F, 0x897F, 0x58EE, 0x65CF, 0x81EA, 0x6CBB, 0x533A])
        \<comment> \<open>Guangxi: Guangxi Zhuangzu zizhiqu\<close>,
      ([0x897F, 0x85CF], [0x897F, 0x85CF, 0x81EA, 0x6CBB, 0x533A])
        \<comment> \<open>Xizang: Xizang zizhiqu\<close>,
      ([0x5B81, 0x590F], [0x5B81, 0x590F, 0x56DE, 0x65CF, 0x81EA, 0x6CBB, 0x533A])
        \<comment> \<open>Ningxia: Ningxia Huizu zizhiqu\<close>,
      ([0x65B0, 0x7586], [0x65B0, 0x7586, 0x7EF4, 0x543E, 0x5C14, 0x81EA, 0x6CBB, 0x533A])
        \<comment> \<open>Xinjiang: Xinjiang Weiwu'er zizhiqu\<close>,
      ([0x4E2D, 0x56FD, 0x9999, 0x6E2F], [0x9999, 0x6E2F, 0x7279, 0x522B, 0x884C, 0x653F, 0x533A])
        \<comment> \<open>Zhongguo Xianggang: Xianggang tebie xingzhengqu\<close>,
      ([0x4E2D, 0x56FD, 0x6FB3, 0x95E8], [0x6FB3, 0x95E8, 0x7279, 0x522B, 0x884C, 0x653F, 0x533A])
        \<comment> \<open>Zhongguo Aomen: Aomen tebie xingzhengqu\<close>,
      ([0x4E2D, 0x56FD, 0x53F0, 0x6E7E], [0x53F0, 0x6E7E, 0x7701])
        \<comment> \<open>Zhongguo Taiwan: Taiwan sheng\<close> ]"

text \<open>Names for the strings the properties below mention.\<close>

definition Beijing :: ustr where "Beijing = [0x5317, 0x4EAC]"
definition Beijing_shi :: ustr where "Beijing_shi = [0x5317, 0x4EAC, 0x5E02]"
definition Henan :: ustr where "Henan = [0x6CB3, 0x5357]"
definition Henan_sheng :: ustr where "Henan_sheng = [0x6CB3, 0x5357, 0x7701]"
definition Zhongguo :: ustr where "Zhongguo = [0x4E2D, 0x56FD]"
definition sheng :: ustr where "sheng = [0x7701]"
definition shi :: ustr where "shi = [0x5E02]"
definition zizhiqu :: ustr where "zizhiqu = [0x81EA, 0x6CBB, 0x533A]"

text \<open>The display names: the values of \<open>CHINA_PROVINCES_MAP\<close>.\<close>

definition canonical_names :: "ustr list" where
  "canonical_names = map snd CHINA_PROVINCES_MAP"

section \<open>Location extractor\<close>

text \<open>
  \<open>re.search(r'<marker>\s*(\S+)', ip_loc)\<close> followed by \<open>match.group(1)\<close>, where
  the marker is the three characters U+53D1 U+5E03 U+4E8E ("posted from"). The
  search tries the start positions from left to right. At a position where the
  marker stands, \<open>\s*\<close> takes the whole whitespace run and \<open>\S+\<close> the whole run of
  non-whitespace after it; if that run is empty, giving whitespace back cannot
  help (\<open>\S\<close> does not match it) and the search moves to the next position.
\<close>

definition marker :: ustr where
  "marker = [0x53D1, 0x5E03, 0x4E8E]"

fun re_search_group1 :: "ustr \<Rightarrow> ustr option" where
  "re_search_group1 [] = None"
| "re_search_group1 (c # cs) =
     (if take 3 (c # cs) = marker then
        (let tok = takeWhile (\<lambda>x. \<not> is_space x) (dropWhile is_space (drop 3 (c # cs)))
         in if tok = [] then re_search_group1 cs else Some tok)
      else re_search_group1 cs)"

text \<open>
  \<open>ip_counter\<close> is a \<open>collections.Counter\<close>: a dict whose missing keys read as 0.
  \<open>ip_counter[k] += 1\<close> reads the key (0 if it is missing), adds one and stores the
  result: \<open>counter_incr\<close>.
\<close>

type_synonym counter = "(ustr \<times> nat) list"

definition counter_get :: "counter \<Rightarrow> ustr \<Rightarrow> nat" where
  "counter_get c k = (case map_of c k of None \<Rightarrow> 0 | Some n \<Rightarrow> n)"

definition counter_incr :: "ustr \<Rightarrow> counter \<Rightarrow> counter" where
  "counter_incr k c = dict_modify k (\<lambda>n. n + 1) (dict_setdefault k 0 c)"

text \<open>
  The body of the \<open>try\<close> block of \<open>extract_ip_locations_and_plot_map\<close> for one line.
  The counter is only changed by the last statement, so an exception leaves it as
  it was.
\<close>

definition ip_try_body :: "line \<Rightarrow> counter \<Rightarrow> error + counter" where
  "ip_try_body l ip_counter =
     (case l of
        Malformed \<Rightarrow> Inl JSONDecodeError
      | Decoded record \<Rightarrow>
          ebind (py_get record (ascii ''ip_location'') (JStr [])) (\<lambda>ip_loc.
            case ip_loc of
              JStr s \<Rightarrow>
                (case re_search_group1 s of
                   Some province \<Rightarrow>
                     if province \<in> set CHINA_PROVINCES then
                       (case map_of CHINA_PROVINCES_MAP province of
                          None \<Rightarrow> Inl KeyError
                        | Some name \<Rightarrow> Inr (counter_incr name ip_counter))
                     else Inr ip_counter
                 | None \<Rightarrow> Inr ip_counter)
            | _ \<Rightarrow> Inr ip_counter))"

text \<open>
  The loop over the lines: \<open>except json.JSONDecodeError: continue\<close>; every other
  exception leaves the function.
\<close>

fun ip_loop :: "line list \<Rightarrow> counter \<Rightarrow> error + counter" where
  "ip_loop [] ip_counter = Inr ip_counter"
| "ip_loop (l # ls) ip_counter =
     (case ip_try_body l ip_counter of
        Inl e \<Rightarrow> if e = JSONDecodeError then ip_loop ls ip_counter else Inl e
      | Inr c' \<Rightarrow> ip_loop ls c')"

text \<open>The counting pass of \<open>extract_ip_locations_and_plot_map\<close> (before any
  plotting), from the empty counter.\<close>

definition extract_ip_locations :: "line list \<Rightarrow> error + counter" where
  "extract_ip_locations ls = ip_loop ls []"

text \<open>The number of lines that \<open>json.loads\<close> decodes.\<close>

definition decoded_lines :: "line list \<Rightarrow> nat" where
  "decoded_lines ls = length (filter (\<lambda>l. l \<noteq> Malformed) ls)"

section \<open>Library functions on strings and numbers\<close>

text \<open>
  The Unicode decimal digits (category Nd, Unicode 14): 66 blocks of ten
  consecutive code points, each starting at the digit zero listed here. This is
  the class \<open>\d\<close> of \<open>re\<close> on \<open>str\<close> patterns, and the digits \<open>int\<close> accepts.
\<close>

definition decimal_zeros :: "nat list" where
  "decimal_zeros =
    [48, 1632, 1776, 1984, 2406, 2534, 2662, 2790, 2918, 3046, 3174, 3302, 3430, 3558,
     3664, 3792, 3872, 4160, 4240, 6112, 6160, 6470, 6608, 6784, 6800, 6992, 7088, 7232,
     7248, 42528, 43216, 43264, 43472, 43504, 43600, 44016, 65296, 66720, 68912, 69734,
     69872, 69942, 70096, 70384, 70736, 70864, 71248, 71360, 71472, 71904, 72016, 72784,
     73040, 73120, 92768, 92864, 93008, 120782, 120792, 120802, 120812, 120822, 123200,
     123632, 125264, 130032]"

definition decimal_value :: "nat \<Rightarrow> nat option" where
  "decimal_value c =
     map_option (\<lambda>z. c - z) (find (\<lambda>z. z \<le> c \<and> c \<le> z + 9) decimal_zeros)"

text \<open>
  The characters for which \<open>str.isdigit\<close> holds and \<open>str.isdecimal\<close> does not
  (superscripts, circled digits and the like), as inclusive ranges. \<open>int\<close> rejects
  all of them.
\<close>

definition digit_only_ranges :: "(nat \<times> nat) list" where
  "digit_only_ranges =
    [(178, 179), (185, 185), (4969, 4977), (6618, 6618), (8304, 8304), (8308, 8313),
     (8320, 8329), (9312, 9320), (9332, 9340), (9352, 9360), (9450, 9450), (9461, 9469),
     (9471, 9471), (10102, 10110), (10112, 10120), (10122, 10130), (68160, 68163),
     (69216, 69224), (69714, 69722), (127232, 127242)]"

definition is_digit_char :: "nat \<Rightarrow> bool" where
  "is_digit_char c \<longleftrightarrow>
     decimal_value c \<noteq> None \<or> list_ex (\<lambda>(lo, hi). lo \<le> c \<and> c \<le> hi) digit_only_ranges"

text \<open>\<open>s.isdigit()\<close>: at least one character, and every character a digit.\<close>

definition isdigit :: "ustr \<Rightarrow> bool" where
  "isdigit s \<longleftrightarrow> s \<noteq> [] \<and> list_all is_digit_char s"

text \<open>
  \<open>int(s)\<close> for a string, base 10, as CPython does it. Characters below 127 are
  kept; above, Unicode whitespace becomes a blank, a decimal digit its ASCII digit
  and anything else \<open>?\<close>. The result is parsed as ASCII: optional blanks
  (\<open>\t\n\v\f\r\<close> and space), an optional sign, digits with single underscores
  between them, optional blanks. More than 4300 digits are refused
  (\<open>sys.get_int_max_str_digits()\<close>). Every failure is a \<open>ValueError\<close>.
\<close>

definition to_ascii_char :: "nat \<Rightarrow> nat" where
  "to_ascii_char c =
     (if c < 127 then c
      else if is_space c then 32
      else (case decimal_value c of Some d \<Rightarrow> 48 + d | None \<Rightarrow> 63))"

definition ascii_space :: "nat \<Rightarrow> bool" where
  "ascii_space c \<longleftrightarrow> (9 \<le> c \<and> c \<le> 13) \<or> c = 32"

definition int_max_str_digits :: nat where
  "int_max_str_digits = 4300"

text \<open>\<open>parse_digits cs prev acc n\<close>: \<open>prev\<close> says that the previous character was a
  digit, \<open>acc\<close> is the value and \<open>n\<close> the number of digits read so far.\<close>

fun parse_digits :: "ustr \<Rightarrow> bool \<Rightarrow> int \<Rightarrow> nat \<Rightarrow> (int \<times> nat) option" where
  "parse_digits [] prev acc n = (if prev then Some (acc, n) else None)"
| "parse_digits (c # cs) prev acc n =
     (if 48 \<le> c \<and> c \<le> 57 then parse_digits cs True (acc * 10 + (int c - 48)) (n + 1)
      else if c = 95 \<and> prev then parse_digits cs False acc n
      else None)"

definition py_int_str :: "ustr \<Rightarrow> error + int" where
  "py_int_str s =
     (let t = rev (dropWhile ascii_space (rev (dropWhile ascii_space (map to_ascii_char s))));
          (sign, body) =
            (case t of
               c # cs \<Rightarrow> if c = 45 then (- 1, cs) else if c = 43 then (1, cs) else (1, t)
             | [] \<Rightarrow> (1, t))
      in case parse_digits body False 0 0 of
           None \<Rightarrow> Inl ValueError
         | Some (v, n) \<Rightarrow> if n > int_max_str_digits then Inl ValueError else Inr (sign * v))"

text \<open>\<open>int(x)\<close> on a decoded JSON value. A float is truncated toward zero.\<close>

definition py_int :: "json \<Rightarrow> error + int" where
  "py_int v =
     (case v of
        JInt n \<Rightarrow> Inr n
      | JBool b \<Rightarrow> Inr (if b then 1 else 0)
      | JFloat (Fin r) \<Rightarrow> Inr (if 0 \<le> r then \<lfloor>r\<rfloor> else \<lceil>r\<rceil>)
      | JFloat NaN \<Rightarrow> Inl ValueError
      | JFloat PosInf \<Rightarrow> Inl OverflowError
      | JFloat NegInf \<Rightarrow> Inl OverflowError
      | JStr s \<Rightarrow> py_int_str s
      | JNull \<Rightarrow> Inl TypeError
      | JArr _ \<Rightarrow> Inl TypeError
      | JObj _ \<Rightarrow> Inl TypeError)"



subsection \<open>\<open>datetime.strptime(date_str, "%Y-%m-%d %H:%M:%S").year\<close>\<close>

text \<open>
  \<open>_strptime\<close> turns the format into the regular expression
  \<^verbatim>\<open>(?P<Y>\d\d\d\d)-(?P<m>1[0-2]|0[1-9]|[1-9])-(?P<d>3[0-1]|[1-2]\d|0[1-9]|[1-9]| [1-9])\<close>
  \<^verbatim>\<open>\s+(?P<H>2[0-3]|[0-1]\d|\d):(?P<M>[0-5]\d|\d):(?P<S>6[0-1]|[0-5]\d|\d)\<close>
  matches it at the start of the string and requires the match to end at the end
  of the string. Each group but the last is followed by a character that no
  alternative of the group can start with or continue with, so taking the first
  alternative that matches, without backtracking, decides the match. Each matcher
  returns the number read and the rest of the string.
\<close>

definition is_d :: "nat \<Rightarrow> bool" where
  "is_d c \<longleftrightarrow> decimal_value c \<noteq> None"

definition dval :: "nat \<Rightarrow> int" where
  "dval c = (case decimal_value c of Some d \<Rightarrow> int d | None \<Rightarrow> 0)"

definition between :: "nat \<Rightarrow> nat \<Rightarrow> nat \<Rightarrow> bool" where
  "between lo hi c \<longleftrightarrow> lo \<le> c \<and> c \<le> hi"

fun match_Y :: "ustr \<Rightarrow> (int \<times> ustr) option" where
  "match_Y (a # b # c # d # rest) =
     (if is_d a \<and> is_d b \<and> is_d c \<and> is_d d
      then Some (1000 * dval a + 100 * dval b + 10 * dval c + dval d, rest) else None)"
| "match_Y _ = None"

fun match_m :: "ustr \<Rightarrow> (int \<times> ustr) option" where
  "match_m (a # b # rest) =
     (if a = 49 \<and> between 48 50 b then Some (10 + dval b, rest)
      else if a = 48 \<and> between 49 57 b then Some (dval b, rest)
      else if between 49 57 a then Some (dval a, b # rest)
      else None)"
| "match_m [a] = (if between 49 57 a then Some (dval a, []) else None)"
| "match_m [] = None"

fun match_d :: "ustr \<Rightarrow> (int \<times> ustr) option" where
  "match_d (a # b # rest) =
     (if a = 51 \<and> between 48 49 b then Some (30 + dval b, rest)
      else if between 49 50 a \<and> is_d b then Some (10 * dval a + dval b, rest)
      else if a = 48 \<and> between 49 57 b then Some (dval b, rest)
      else if between 49 57 a then Some (dval a, b # rest)
      else if a = 32 \<and> between 49 57 b then Some (dval b, rest)
      else None)"
| "match_d [a] = (if between 49 57 a then Some (dval a, []) else None)"
| "match_d [] = None"

fun match_H :: "ustr \<Rightarrow> (int \<times> ustr) option" where
  "match_H (a # b # rest) =
     (if a = 50 \<and> between 48 51 b then Some (20 + dval b, rest)
      else if between 48 49 a \<and> is_d b then Some (10 * dval a + dval b, rest)
      else if is_d a then Some (dval a, b # rest)
      else None)"
| "match_H [a] = (if is_d a then Some (dval a, []) else None)"
| "match_H [] = None"

fun match_M :: "ustr \<Rightarrow> (int \<times> ustr) option" where
  "match_M (a # b # rest) =
     (if between 48 53 a \<and> is_d b then Some (10 * dval a + dval b, rest)
      else if is_d a then Some (dval a, b # rest)
      else None)"
| "match_M [a] = (if is_d a then Some (dval a, []) else None)"
| "match_M [] = None"

fun match_S :: "ustr \<Rightarrow> (int \<times> ustr) option" where
  "match_S (a # b # rest) =
     (if a = 54 \<and> between 48 49 b then Some (60 + dval b, rest)
      else if between 48 53 a \<and> is_d b then Some (10 * dval a + dval b, rest)
      else if is_d a then Some (dval a, b # rest)
      else None)"
| "match_S [a] = (if is_d a then Some (dval a, []) else None)"
| "match_S [] = None"

text \<open>A literal character of the format, and the \<open>\s+\<close> that a blank of the
  format becomes.\<close>

fun expect :: "nat \<Rightarrow> ustr \<Rightarrow> ustr option" where
  "expect c (x # rest) = (if x = c then Some rest else None)"
| "expect c [] = None"

fun match_ws :: "ustr \<Rightarrow> ustr option" where
  "match_ws (x # rest) = (if is_space x then Some (dropWhile is_space rest) else None)"
| "match_ws [] = None"

definition strptime_fields :: "ustr \<Rightarrow> (int \<times> int \<times> int \<times> int \<times> int \<times> int) option" where
  "strptime_fields s =
     Option.bind (match_Y s) (\<lambda>(Y, r).
     Option.bind (expect 45 r) (\<lambda>r.
     Option.bind (match_m r) (\<lambda>(m, r).
     Option.bind (expect 45 r) (\<lambda>r.
     Option.bind (match_d r) (\<lambda>(d, r).
     Option.bind (match_ws r) (\<lambda>r.
     Option.bind (match_H r) (\<lambda>(H, r).
     Option.bind (expect 58 r) (\<lambda>r.
     Option.bind (match_M r) (\<lambda>(M, r).
     Option.bind (expect 58 r) (\<lambda>r.
     Option.bind (match_S r) (\<lambda>(S, r).
       if r = [] then Some (Y, m, d, H, M, S) else None)))))))))))"

definition is_leap :: "int \<Rightarrow> bool" where
  "is_leap y \<longleftrightarrow> y mod 4 = 0 \<and> (y mod 100 \<noteq> 0 \<or> y mod 400 = 0)"

definition days_in_month :: "int \<Rightarrow> int \<Rightarrow> int" where
  "days_in_month y m =
     (if m = 2 then (if is_leap y then 29 else 28)
      else if m = 4 \<or> m = 6 \<or> m = 9 \<or> m = 11 then 30 else 31)"

text \<open>
  The year of the parsed date. A non-string argument is a \<open>TypeError\<close>; a string
  that does not match, or leaves characters over, a year 0, a day beyond the end
  of the month and a second of 60 or 61 are each a \<open>ValueError\<close>.
\<close>

definition strptime_year :: "json \<Rightarrow> error + int" where
  "strptime_year date_str =
     (case date_str of
        JStr s \<Rightarrow>
          (case strptime_fields s of
             None \<Rightarrow> Inl ValueError
           | Some (Y, m, d, H, M, S) \<Rightarrow>
               if 1 \<le> Y \<and> d \<le> days_in_month Y m \<and> S \<le> 59 then Inr Y else Inl ValueError)
      | _ \<Rightarrow> Inl TypeError)"

subsection \<open>\<open>datetime.fromtimestamp(t).year\<close>\<close>

text \<open>
  The conversion of whole epoch seconds to a local calendar year depends on the
  time zone and the platform of the run, also in the error it raises out of range;
  it is the parameter \<open>localtime_year\<close>. The function accepts an \<open>int\<close> (hence a
  \<open>bool\<close>) or a \<open>float\<close>; a float is rounded to microseconds, half to even, and
  its whole seconds are taken downwards.
\<close>

definition round_half_even :: "rat \<Rightarrow> int" where
  "round_half_even x =
     (let f = \<lfloor>x\<rfloor>; d = x - of_int f
      in if d < 1 / 2 then f else if 1 / 2 < d then f + 1 else if even f then f else f + 1)"

definition fromtimestamp_year :: "(int \<Rightarrow> error + int) \<Rightarrow> json \<Rightarrow> error + int" where
  "fromtimestamp_year localtime_year t =
     (case t of
        JInt n \<Rightarrow> localtime_year n
      | JBool b \<Rightarrow> localtime_year (if b then 1 else 0)
      | JFloat (Fin r) \<Rightarrow> localtime_year (round_half_even (r * 1000000) div 1000000)
      | JFloat NaN \<Rightarrow> Inl ValueError
      | JFloat PosInf \<Rightarrow> Inl OverflowError
      | JFloat NegInf \<Rightarrow> Inl OverflowError
      | JStr _ \<Rightarrow> Inl TypeError
      | JNull \<Rightarrow> Inl TypeError
      | JArr _ \<Rightarrow> Inl TypeError
      | JObj _ \<Rightarrow> Inl TypeError)"

text \<open>
  An instance of the parameter: a run of CPython 3.11 on 64-bit Linux in the time
  zone UTC. Seconds that do not fit the platform's \<open>time_t\<close> (64 bits, signed)
  raise \<open>OverflowError\<close>; seconds whose year does not fit the C library's
  \<open>struct tm\<close> make \<open>localtime\<close> fail, which raises \<open>OSError\<close>; a year outside
  1 .. 9999 raises \<open>ValueError\<close>, and so does a time in the first day of year 1,
  because the conversion also converts the time 24 hours earlier. The year of a
  day number (days since 1970-01-01) is computed in the proleptic Gregorian
  calendar.
\<close>

definition year_of_days :: "int \<Rightarrow> int" where
  "year_of_days days =
     (let z = days + 719468;
          era = z div 146097;
          doe = z mod 146097;
          yoe = (doe - doe div 1460 + doe div 36524 - doe div 146096) div 365;
          doy = doe - (365 * yoe + yoe div 4 - yoe div 100);
          mp = (5 * doy + 2) div 153
      in yoe + era * 400 + (if mp < 10 then 0 else 1))"

definition utc_year :: "int \<Rightarrow> error + int" where
  "utc_year t =
     (if t < - 9223372036854775808 \<or> 9223372036854775808 \<le> t then Inl OverflowError
      else if t < - 67768040609740800 \<or> 67768036191676799 < t then Inl OSError
      else
        let y = year_of_days (t div 86400)
        in if y < 1 \<or> 9999 < y then Inl ValueError
           else if year_of_days ((t - 86400) div 86400) < 1 then Inl ValueError
           else Inr y)"

section \<open>Yearly aggregation\<close>

subsection \<open>Video source: \<open>process_data\<close> of \<open>statistics.py\<close>\<close>

record video_entry =
  post_count :: int
  total_likes :: int
  total_collections :: int
  total_comments :: int
  total_shares :: int

type_synonym video_stats = "(int \<times> video_entry) list"

definition new_video_entry :: video_entry where
  "new_video_entry =
     \<lparr>post_count = 0, total_likes = 0, total_collections = 0, total_comments = 0,
      total_shares = 0\<rparr>"

text \<open>
  The body of the \<open>for\<close> loop for one item. Nothing catches an exception here, so
  the statistics built so far are lost with it and the result is just the error.
\<close>

definition process_item ::
  "(int \<Rightarrow> error + int) \<Rightarrow> json \<Rightarrow> video_stats \<Rightarrow> error + video_stats" where
  "process_item localtime_year item yearly_stats =
     ebind (py_subscript item (ascii ''create_time'')) (\<lambda>create_time.
     ebind (fromtimestamp_year localtime_year create_time) (\<lambda>year.
     let s0 = dict_setdefault year new_video_entry yearly_stats;
         s1 = dict_modify year (\<lambda>e. e\<lparr>post_count := post_count e + 1\<rparr>) s0
     in
     ebind (ebind (py_get item (ascii ''liked_count'') (JInt 0)) py_int) (\<lambda>n.
     let s2 = dict_modify year (\<lambda>e. e\<lparr>total_likes := total_likes e + n\<rparr>) s1 in
     ebind (ebind (py_get item (ascii ''collected_count'') (JInt 0)) py_int) (\<lambda>n.
     let s3 = dict_modify year (\<lambda>e. e\<lparr>total_collections := total_collections e + n\<rparr>) s2 in
     ebind (ebind (py_get item (ascii ''comment_count'') (JInt 0)) py_int) (\<lambda>n.
     let s4 = dict_modify year (\<lambda>e. e\<lparr>total_comments := total_comments e + n\<rparr>) s3 in
     ebind (ebind (py_get item (ascii ''share_count'') (JInt 0)) py_int) (\<lambda>n.
     Inr (dict_modify year (\<lambda>e. e\<lparr>total_shares := total_shares e + n\<rparr>) s4)))))))"

fun process_data_loop ::
  "(int \<Rightarrow> error + int) \<Rightarrow> json list \<Rightarrow> video_stats \<Rightarrow> error + video_stats" where
  "process_data_loop localtime_year [] yearly_stats = Inr yearly_stats"
| "process_data_loop localtime_year (item # items) yearly_stats =
     (case process_item localtime_year item yearly_stats of
        Inl e \<Rightarrow> Inl e
      | Inr s \<Rightarrow> process_data_loop localtime_year items s)"

text \<open>
  \<open>for item in data\<close>: a list gives its elements, a dict its keys, a string its
  characters; nothing else can be iterated.
\<close>

definition py_iter :: "json \<Rightarrow> error + json list" where
  "py_iter data =
     (case data of
        JArr xs \<Rightarrow> Inr xs
      | JObj kvs \<Rightarrow> Inr (map (\<lambda>(k, v). JStr k) kvs)
      | JStr s \<Rightarrow> Inr (map (\<lambda>c. JStr [c]) s)
      | _ \<Rightarrow> Inl TypeError)"

definition process_data :: "(int \<Rightarrow> error + int) \<Rightarrow> json \<Rightarrow> error + video_stats" where
  "process_data localtime_year data =
     ebind (py_iter data) (\<lambda>items. process_data_loop localtime_year items [])"

subsection \<open>Microblog source: \<open>process_weibo_jsonl\<close> of \<open>statistics.py\<close>\<close>

type_synonym weibo_counts = "(int \<times> int) list"

text \<open>
  The body of the \<open>try\<close> block for one line. \<open>continue\<close> on an empty date ends the
  iteration with the counts unchanged. The counts are only changed by the last
  statements, after everything that can raise.
\<close>

definition weibo_try_body :: "line \<Rightarrow> weibo_counts \<Rightarrow> error + weibo_counts" where
  "weibo_try_body l yearly_post_count =
     (case l of
        Malformed \<Rightarrow> Inl JSONDecodeError
      | Decoded record \<Rightarrow>
          ebind (py_get record (ascii ''created_at'') (JStr [])) (\<lambda>date_str.
            if \<not> py_truthy date_str then Inr yearly_post_count
            else
              ebind (strptime_year date_str) (\<lambda>year.
                Inr (dict_modify year (\<lambda>n. n + 1)
                       (dict_setdefault year 0 yearly_post_count)))))"

text \<open>\<open>except json.JSONDecodeError: continue\<close>: any other exception leaves the
  function.\<close>

fun weibo_loop :: "line list \<Rightarrow> weibo_counts \<Rightarrow> error + weibo_counts" where
  "weibo_loop [] yearly_post_count = Inr yearly_post_count"
| "weibo_loop (l # ls) yearly_post_count =
     (case weibo_try_body l yearly_post_count of
        Inl e \<Rightarrow> if e = JSONDecodeError then weibo_loop ls yearly_post_count else Inl e
      | Inr s \<Rightarrow> weibo_loop ls s)"

definition process_weibo_jsonl :: "line list \<Rightarrow> error + weibo_counts" where
  "process_weibo_jsonl ls = weibo_loop ls []"

subsection \<open>Microblog source: \<open>process_weibo_jsonl\<close> of \<open>statistics_only_weibo.py\<close>\<close>

record weibo_entry =
  weibo_post_count :: int
  weibo_reads_count :: int

type_synonym weibo_stats = "(int \<times> weibo_entry) list"

definition new_weibo_entry :: weibo_entry where
  "new_weibo_entry = \<lparr>weibo_post_count = 0, weibo_reads_count = 0\<rparr>"

text \<open>
  Lines 37 to 40: what \<open>reads\<close> is worth when it is added. A string is stripped
  of its commas and converted if \<open>isdigit\<close> holds of the rest (the conversion can
  still raise), else it counts 0; a value that is not an \<open>int\<close> counts 0; an
  \<open>int\<close> counts as itself, and so does a \<open>bool\<close> (1 or 0).
\<close>

definition normalise_reads :: "json \<Rightarrow> error + int" where
  "normalise_reads reads =
     (case reads of
        JStr s \<Rightarrow>
          (let stripped = filter (\<lambda>c. c \<noteq> 44) s
           in if isdigit stripped then py_int_str stripped else Inr 0)
      | JInt n \<Rightarrow> Inr n
      | JBool b \<Rightarrow> Inr (if b then 1 else 0)
      | _ \<Rightarrow> Inr 0)"

text \<open>
  The body of the \<open>try\<close> block for one line: the statistics when the block is
  left, and the exception that left it, if any. The post count is incremented
  before \<open>reads\<close> is looked at, so an exception raised by the conversion leaves
  the incremented count behind.
\<close>

definition weibo_ext_try_body :: "line \<Rightarrow> weibo_stats \<Rightarrow> weibo_stats \<times> error option" where
  "weibo_ext_try_body l yearly_stats =
     (case l of
        Malformed \<Rightarrow> (yearly_stats, Some JSONDecodeError)
      | Decoded record \<Rightarrow>
          (case py_get record (ascii ''created_at'') (JStr []) of
             Inl e \<Rightarrow> (yearly_stats, Some e)
           | Inr date_str \<Rightarrow>
               if \<not> py_truthy date_str then (yearly_stats, None)
               else
                 (case strptime_year date_str of
                    Inl e \<Rightarrow> (yearly_stats, Some e)
                  | Inr year \<Rightarrow>
                      let s0 = dict_setdefault year new_weibo_entry yearly_stats;
                          s1 = dict_modify year
                                 (\<lambda>e. e\<lparr>weibo_post_count := weibo_post_count e + 1\<rparr>) s0
                      in
                      (case ebind (py_get record (ascii ''reads_count'') (JInt 3000))
                              normalise_reads of
                         Inl e \<Rightarrow> (s1, Some e)
                       | Inr reads \<Rightarrow>
                           (dict_modify year
                              (\<lambda>e. e\<lparr>weibo_reads_count := weibo_reads_count e + reads\<rparr>) s1,
                            None)))))"

text \<open>\<open>except Exception: continue\<close>: every exception is dropped and the loop goes
  on with the statistics as the block left them.\<close>

fun weibo_ext_loop :: "line list \<Rightarrow> weibo_stats \<Rightarrow> weibo_stats" where
  "weibo_ext_loop [] yearly_stats = yearly_stats"
| "weibo_ext_loop (l # ls) yearly_stats =
     weibo_ext_loop ls (fst (weibo_ext_try_body l yearly_stats))"

definition process_weibo_jsonl_ext :: "line list \<Rightarrow> weibo_stats" where
  "process_weibo_jsonl_ext ls = weibo_ext_loop ls []"

section \<open>CSV output\<close>

text \<open>
  The rows handed to \<open>csv.writer.writerow\<close>, in the order written. A cell is a
  string or an integer. \<open>stats[year]\<close> raises \<open>KeyError\<close> on a missing key.
\<close>

datatype cell = CStr ustr | CInt int

definition video_header :: "cell list" where
  "video_header =
     [CStr (ascii ''Year''), CStr (ascii ''Post Count''), CStr (ascii ''Total Likes''),
      CStr (ascii ''Total Collections''), CStr (ascii ''Total Comments''),
      CStr (ascii ''Total Shares'')]"

fun video_rows :: "video_stats \<Rightarrow> int list \<Rightarrow> error + cell list list" where
  "video_rows stats [] = Inr []"
| "video_rows stats (year # years) =
     (case map_of stats year of
        None \<Rightarrow> Inl KeyError
      | Some data \<Rightarrow>
          ebind (video_rows stats years) (\<lambda>rows.
            Inr ([CInt year, CInt (post_count data), CInt (total_likes data),
                  CInt (total_collections data), CInt (total_comments data),
                  CInt (total_shares data)] # rows)))"

definition save_to_csv :: "video_stats \<Rightarrow> error + cell list list" where
  "save_to_csv stats =
     ebind (video_rows stats (sort (map fst stats))) (\<lambda>rows. Inr (video_header # rows))"

section \<open>Notions used in the properties\<close>

subsection \<open>Video source\<close>

text \<open>
  The expressions of the loop body of \<open>process_data\<close> that can raise:
  \<open>datetime.fromtimestamp(item['create_time']).year\<close> and, for each of the four
  keys, \<open>int(item.get(key, 0))\<close>.
\<close>

definition item_year :: "(int \<Rightarrow> error + int) \<Rightarrow> json \<Rightarrow> error + int" where
  "item_year localtime_year item =
     ebind (py_subscript item (ascii ''create_time'')) (fromtimestamp_year localtime_year)"

definition item_count :: "json \<Rightarrow> ustr \<Rightarrow> error + int" where
  "item_count item key = ebind (py_get item key (JInt 0)) py_int"

definition engagement_keys :: "ustr list" where
  "engagement_keys =
     [ascii ''liked_count'', ascii ''collected_count'', ascii ''comment_count'',
      ascii ''share_count'']"

text \<open>The five statements \<open>yearly_stats[year][...] += ...\<close> of one iteration, after
  the guarded insertion of the year.\<close>

definition video_update :: "int \<Rightarrow> int \<Rightarrow> int \<Rightarrow> int \<Rightarrow> int \<Rightarrow> video_stats \<Rightarrow> video_stats" where
  "video_update year a b c d yearly_stats =
     dict_modify year (\<lambda>e. e\<lparr>total_shares := total_shares e + d\<rparr>)
       (dict_modify year (\<lambda>e. e\<lparr>total_comments := total_comments e + c\<rparr>)
         (dict_modify year (\<lambda>e. e\<lparr>total_collections := total_collections e + b\<rparr>)
           (dict_modify year (\<lambda>e. e\<lparr>total_likes := total_likes e + a\<rparr>)
             (dict_modify year (\<lambda>e. e\<lparr>post_count := post_count e + 1\<rparr>)
               (dict_setdefault year new_video_entry yearly_stats)))))"

text \<open>The entry of a year in a table, a fresh entry if the year is not a key.\<close>

definition entry_of :: "video_stats \<Rightarrow> int \<Rightarrow> video_entry" where
  "entry_of stats year = (case map_of stats year of None \<Rightarrow> new_video_entry | Some e \<Rightarrow> e)"

subsection \<open>Microblog source\<close>

text \<open>
  What the \<open>try\<close> block of \<open>process_weibo_jsonl\<close> (the same in both files up to
  this point) has when it reaches the table: the year of the line, if it gets
  there; and the exception that stops it before, if one does. A line with an
  empty or missing date has neither.
\<close>

definition weibo_line_year :: "line \<Rightarrow> int option" where
  "weibo_line_year l =
     (case l of
        Malformed \<Rightarrow> None
      | Decoded record \<Rightarrow>
          (case py_get record (ascii ''created_at'') (JStr []) of
             Inl e \<Rightarrow> None
           | Inr date_str \<Rightarrow>
               if \<not> py_truthy date_str then None
               else (case strptime_year date_str of Inl e \<Rightarrow> None | Inr year \<Rightarrow> Some year)))"

definition weibo_line_error :: "line \<Rightarrow> error option" where
  "weibo_line_error l =
     (case l of
        Malformed \<Rightarrow> Some JSONDecodeError
      | Decoded record \<Rightarrow>
          (case py_get record (ascii ''created_at'') (JStr []) of
             Inl e \<Rightarrow> Some e
           | Inr date_str \<Rightarrow>
               if \<not> py_truthy date_str then None
               else (case strptime_year date_str of Inl e \<Rightarrow> Some e | Inr year \<Rightarrow> None)))"

text \<open>
  What a line with a year adds to \<open>reads_count\<close> in \<open>statistics_only_weibo.py\<close>:
  the normalised \<open>reads\<close>, and nothing when the normalisation raises (the
  exception is caught and the statement \<open>+= reads\<close> is not reached).
\<close>

definition weibo_line_reads :: "line \<Rightarrow> int" where
  "weibo_line_reads l =
     (case l of
        Malformed \<Rightarrow> 0
      | Decoded record \<Rightarrow>
          (case ebind (py_get record (ascii ''reads_count'') (JInt 3000)) normalise_reads of
             Inl e \<Rightarrow> 0
           | Inr reads \<Rightarrow> reads))"

text \<open>The two statements \<open>yearly_stats[year][...] += ...\<close> of one iteration, after
  the guarded insertion of the year.\<close>

definition weibo_update :: "int \<Rightarrow> int \<Rightarrow> weibo_stats \<Rightarrow> weibo_stats" where
  "weibo_update year reads yearly_stats =
     dict_modify year (\<lambda>e. e\<lparr>weibo_reads_count := weibo_reads_count e + reads\<rparr>)
       (dict_modify year (\<lambda>e. e\<lparr>weibo_post_count := weibo_post_count e + 1\<rparr>)
         (dict_setdefault year new_weibo_entry yearly_stats))"

text \<open>The entry of a year in a table, a fresh entry if the year is not a key.\<close>

definition weibo_entry_of :: "weibo_stats \<Rightarrow> int \<Rightarrow> weibo_entry" where
  "weibo_entry_of stats year =
     (case map_of stats year of None \<Rightarrow> new_weibo_entry | Some e \<Rightarrow> e)"

text \<open>By how much the reads total of a year grows when one line is folded into a
  table by the \<open>try\<close> block of \<open>statistics_only_weibo.py\<close>.\<close>

definition reads_added :: "line \<Rightarrow> weibo_stats \<Rightarrow> int \<Rightarrow> int" where
  "reads_added l yearly_stats year =
     weibo_reads_count (weibo_entry_of (fst (weibo_ext_try_body l yearly_stats)) year)
     - weibo_reads_count (weibo_entry_of yearly_stats year)"

subsection \<open>Aggregation as a fold\<close>

text \<open>
  Each of the three loops folds one contribution per record into its table: the
  year and an amount. \<open>agg_step\<close> is the guarded insertion of the year with the
  initial entry, followed by the addition of the amount to the entry of the
  year.
\<close>

definition agg_step ::
  "('e \<Rightarrow> 'd \<Rightarrow> 'e) \<Rightarrow> 'e \<Rightarrow> int \<times> 'd \<Rightarrow> (int \<times> 'e) list \<Rightarrow> (int \<times> 'e) list" where
  "agg_step add init c stats =
     dict_modify (fst c) (\<lambda>e. add e (snd c)) (dict_setdefault (fst c) init stats)"

text \<open>The amounts contributed to a year by a list of contributions, in order.\<close>

definition amounts_of :: "int \<Rightarrow> (int \<times> 'd) list \<Rightarrow> 'd list" where
  "amounts_of year cs = map snd (filter (\<lambda>c. fst c = year) cs)"

text \<open>Video source: the contribution of an item, field by field, and the sum of
  two entries.\<close>

definition add_video :: "video_entry \<Rightarrow> video_entry \<Rightarrow> video_entry" where
  "add_video e d =
     \<lparr>post_count = post_count e + post_count d,
      total_likes = total_likes e + total_likes d,
      total_collections = total_collections e + total_collections d,
      total_comments = total_comments e + total_comments d,
      total_shares = total_shares e + total_shares d\<rparr>"

definition item_delta :: "(int \<Rightarrow> error + int) \<Rightarrow> json \<Rightarrow> error + int \<times> video_entry" where
  "item_delta localtime_year item =
     ebind (item_year localtime_year item) (\<lambda>y.
     ebind (item_count item (ascii ''liked_count'')) (\<lambda>a.
     ebind (item_count item (ascii ''collected_count'')) (\<lambda>b.
     ebind (item_count item (ascii ''comment_count'')) (\<lambda>c.
     ebind (item_count item (ascii ''share_count'')) (\<lambda>d.
       Inr (y, \<lparr>post_count = 1, total_likes = a, total_collections = b,
                total_comments = c, total_shares = d\<rparr>))))))"

definition delta_of :: "(int \<Rightarrow> error + int) \<Rightarrow> json \<Rightarrow> int \<times> video_entry" where
  "delta_of localtime_year item =
     (case item_delta localtime_year item of Inr c \<Rightarrow> c | Inl e \<Rightarrow> (0, new_video_entry))"

text \<open>Microblog source: the years of the lines that have one, in order; and, for
  \<open>statistics_only_weibo.py\<close>, their contributions and the sum of two entries.\<close>

definition weibo_years :: "line list \<Rightarrow> int list" where
  "weibo_years ls = List.map_filter weibo_line_year ls"

definition add_weibo :: "weibo_entry \<Rightarrow> weibo_entry \<Rightarrow> weibo_entry" where
  "add_weibo e d =
     \<lparr>weibo_post_count = weibo_post_count e + weibo_post_count d,
      weibo_reads_count = weibo_reads_count e + weibo_reads_count d\<rparr>"

definition weibo_delta :: "line \<Rightarrow> (int \<times> weibo_entry) option" where
  "weibo_delta l =
     map_option (\<lambda>y. (y, \<lparr>weibo_post_count = 1, weibo_reads_count = weibo_line_reads l\<rparr>))
       (weibo_line_year l)"

text \<open>A line on which the \<open>try\<close> block of \<open>statistics.py\<close> raises an exception that
  its \<open>except\<close> clause does not catch.\<close>

definition weibo_line_raises :: "line \<Rightarrow> bool" where
  "weibo_line_raises l \<longleftrightarrow>
     (case weibo_line_error l of None \<Rightarrow> False | Some e \<Rightarrow> e \<noteq> JSONDecodeError)"

text \<open>One row of the CSV file of the video source.\<close>

definition video_row :: "int \<Rightarrow> video_entry \<Rightarrow> cell list" where
  "video_row year data =
     [CInt year, CInt (post_count data), CInt (total_likes data),
      CInt (total_collections data), CInt (total_comments data), CInt (total_shares data)]"

section \<open>Properties\<close>

subsection \<open>Dictionaries and the counter\<close>

lemma map_of_dict_modify:
  "map_of (dict_modify k f d) k' = (if k' = k then map_option f (map_of d k) else map_of d k')"
  unfolding dict_modify_def by (induction d) auto

lemma map_fst_dict_modify: "map fst (dict_modify k f d) = map fst d"
  unfolding dict_modify_def by (induction d) auto

lemma map_of_dict_setdefault:
  "map_of (dict_setdefault k v d) k' =
     (if k' = k \<and> map_of d k = None then Some v else map_of d k')"
proof (cases "k \<in> fst ` set d")
  case True
  then have "map_of d k \<noteq> None" by (simp add: map_of_eq_None_iff)
  with True show ?thesis by (simp add: dict_setdefault_def)
next
  case False
  then have n: "map_of d k = None" by (simp add: map_of_eq_None_iff)
  show ?thesis
  proof (cases "map_of d k'")
    case None
    with False n show ?thesis by (simp add: dict_setdefault_def map_add_def)
  next
    case (Some a)
    with False n show ?thesis by (auto simp: dict_setdefault_def map_add_def)
  qed
qed

lemma keys_dict_setdefault: "fst ` set (dict_setdefault k v d) = insert k (fst ` set d)"
  by (auto simp: dict_setdefault_def)

lemma distinct_dict_setdefault:
  "distinct (map fst d) \<Longrightarrow> distinct (map fst (dict_setdefault k v d))"
  by (auto simp: dict_setdefault_def)

lemma map_fst_CHINA_PROVINCES_MAP: "map fst CHINA_PROVINCES_MAP = CHINA_PROVINCES"
  by (simp add: CHINA_PROVINCES_MAP_def CHINA_PROVINCES_def)

lemma canonical_names_34: "length canonical_names = 34 \<and> distinct canonical_names"
  by (simp add: canonical_names_def CHINA_PROVINCES_MAP_def)

lemma province_has_name:
  assumes "p \<in> set CHINA_PROVINCES"
  shows "\<exists>name. map_of CHINA_PROVINCES_MAP p = Some name \<and> name \<in> set canonical_names"
proof -
  from assms have "p \<in> fst ` set CHINA_PROVINCES_MAP"
    using map_fst_CHINA_PROVINCES_MAP by (metis set_map)
  then obtain name where n: "map_of CHINA_PROVINCES_MAP p = Some name"
    by (metis domIff dom_map_of_conv_image_fst not_Some_eq)
  then have "(p, name) \<in> set CHINA_PROVINCES_MAP" by (rule map_of_SomeD)
  then have "name \<in> set canonical_names"
    unfolding canonical_names_def by force
  with n show ?thesis by blast
qed

lemma ip_try_body_obj:
  "ip_try_body (Decoded (JObj kv)) c =
     (case map_of kv (ascii ''ip_location'') of
        None \<Rightarrow> Inr c
      | Some (JStr s) \<Rightarrow>
          (case re_search_group1 s of
             None \<Rightarrow> Inr c
           | Some p \<Rightarrow>
               if p \<in> set CHINA_PROVINCES then
                 (case map_of CHINA_PROVINCES_MAP p of
                    None \<Rightarrow> Inl KeyError
                  | Some name \<Rightarrow> Inr (counter_incr name c))
               else Inr c)
      | Some _ \<Rightarrow> Inr c)"
  by (simp add: ip_try_body_def py_get_def ebind_def split: option.splits json.splits)

lemma counter_get_incr:
  "counter_get (counter_incr k c) k' = (if k' = k then counter_get c k + 1 else counter_get c k')"
  by (simp add: counter_get_def counter_incr_def map_of_dict_modify map_of_dict_setdefault
           split: option.splits)

lemma keys_dict_modify: "fst ` set (dict_modify k f d) = fst ` set d"
  using map_fst_dict_modify[of k f d] by (metis set_map)

lemma keys_counter_incr: "fst ` set (counter_incr k c) = insert k (fst ` set c)"
  by (simp add: counter_incr_def keys_dict_modify keys_dict_setdefault)

lemma distinct_counter_incr:
  "distinct (map fst c) \<Longrightarrow> distinct (map fst (counter_incr k c))"
  by (simp add: counter_incr_def map_fst_dict_modify distinct_dict_setdefault)

lemma sum_dict_modify_absent:
  "k \<notin> set (map fst d) \<Longrightarrow> dict_modify k f d = d"
  unfolding dict_modify_def by (induction d) auto

lemma sum_dict_modify_Suc:
  "distinct (map fst d) \<Longrightarrow> k \<in> set (map fst d) \<Longrightarrow>
   sum_list (map snd (dict_modify k (\<lambda>n. n + 1) d)) = sum_list (map snd d) + (1::nat)"
proof (induction d)
  case Nil then show ?case by simp
next
  case (Cons a d)
  obtain k0 n0 where a: "a = (k0, n0)" by (cases a)
  show ?case
  proof (cases "k0 = k")
    case True
    with Cons.prems a have "k \<notin> set (map fst d)" by auto
    then have "dict_modify k (\<lambda>n. n + 1) d = d" by (rule sum_dict_modify_absent)
    then have "dict_modify k (\<lambda>n. n + 1) (a # d) = (k, n0 + 1) # d"
      using True a by (simp add: dict_modify_def)
    with a show ?thesis by simp
  next
    case False
    with Cons.prems a have "k \<in> set (map fst d)" "distinct (map fst d)" by auto
    with Cons.IH have "sum_list (map snd (dict_modify k (\<lambda>n. n + 1) d)) = sum_list (map snd d) + 1"
      by simp
    moreover have "dict_modify k (\<lambda>n. n + 1) (a # d) = a # dict_modify k (\<lambda>n. n + 1) d"
      using False a by (simp add: dict_modify_def)
    ultimately show ?thesis by simp
  qed
qed

lemma sum_counter_incr:
  assumes "distinct (map fst c)"
  shows "sum_list (map snd (counter_incr k c)) = sum_list (map snd c) + 1"
proof -
  let ?d = "dict_setdefault k 0 c"
  have d: "distinct (map fst ?d)" using assms by (rule distinct_dict_setdefault)
  have k: "k \<in> set (map fst ?d)" using keys_dict_setdefault[of k 0 c] by simp
  have "sum_list (map snd ?d) = sum_list (map snd c)"
    by (simp add: dict_setdefault_def)
  with sum_dict_modify_Suc[OF d k] show ?thesis by (simp add: counter_incr_def)
qed

subsection \<open>The regular-expression search\<close>


lemma re_search_group1_nonempty:
  "re_search_group1 s = Some tok \<Longrightarrow> tok \<noteq> [] \<and> list_all (\<lambda>x. \<not> is_space x) tok"
proof (induction s rule: re_search_group1.induct)
  case 1
  then show ?case by simp
next
  case (2 c cs)
  let ?t = "takeWhile (\<lambda>x. \<not> is_space x) (dropWhile is_space (drop 3 (c # cs)))"
  show ?case
  proof (cases "take 3 (c # cs) = marker \<and> ?t \<noteq> []")
    case True
    with 2(3) have "tok = ?t" by (simp add: Let_def)
    moreover have "list_all (\<lambda>x. \<not> is_space x) ?t"
      unfolding list_all_iff by (metis (mono_tags, lifting) set_takeWhileD)
    ultimately show ?thesis using True by simp
  next
    case False
    with 2 show ?thesis by (auto simp: Let_def split: if_splits)
  qed
qed



subsection \<open>One record in the location extractor\<close>

lemma ip_try_body_not_obj:
  "\<forall>kv. rcd \<noteq> JObj kv \<Longrightarrow> ip_try_body (Decoded rcd) c0 = Inl AttributeError"
  by (cases rcd) (simp_all add: ip_try_body_def py_get_def ebind_def)

lemma ip_try_body_obj_cases:
  assumes "ip_try_body (Decoded (JObj kv)) c0 = Inr c"
  shows "c = c0 \<or> (\<exists>name \<in> set canonical_names. c = counter_incr name c0)"
proof (cases "map_of kv (ascii ''ip_location'')")
  case None
  with assms show ?thesis by (simp add: ip_try_body_obj)
next
  case (Some v)
  show ?thesis
  proof (cases "\<exists>s. v = JStr s")
    case False
    with assms Some have "c = c0"
      by (cases v) (simp_all add: ip_try_body_obj)
    then show ?thesis by simp
  next
    case True
    then obtain s where v: "v = JStr s" by blast
    show ?thesis
    proof (cases "re_search_group1 s")
      case None
      with assms Some v show ?thesis by (simp add: ip_try_body_obj)
    next
      case (Some p)
      note p = Some
      show ?thesis
      proof (cases "p \<in> set CHINA_PROVINCES")
        case False
        with assms \<open>map_of kv (ascii ''ip_location'') = Some v\<close> v p show ?thesis
          by (simp add: ip_try_body_obj)
      next
        case True
        from province_has_name[OF True] obtain name where
          n: "map_of CHINA_PROVINCES_MAP p = Some name" "name \<in> set canonical_names" by blast
        from assms \<open>map_of kv (ascii ''ip_location'') = Some v\<close> v p True n
        have "c = counter_incr name c0" by (simp add: ip_try_body_obj)
        with n show ?thesis by blast
      qed
    qed
  qed
qed

lemma ip_try_body_step:
  assumes "ip_try_body l c0 = Inr c"
  shows "l \<noteq> Malformed \<and> (c = c0 \<or> (\<exists>name \<in> set canonical_names. c = counter_incr name c0))"
proof (cases l)
  case Malformed
  with assms show ?thesis by (simp add: ip_try_body_def)
next
  case (Decoded rcd)
  show ?thesis
  proof (cases "\<exists>kv. rcd = JObj kv")
    case True
    then obtain kv where "rcd = JObj kv" by blast
    with Decoded assms ip_try_body_obj_cases[of kv c0 c] show ?thesis by simp
  next
    case False
    then have "ip_try_body (Decoded rcd) c0 = Inl AttributeError"
      by (intro ip_try_body_not_obj) simp
    with Decoded assms show ?thesis by simp
  qed
qed

lemma ip_try_body_obj_error:
  assumes "ip_try_body (Decoded (JObj kv)) c0 = Inl e"
  shows "e = KeyError"
proof (cases "map_of kv (ascii ''ip_location'')")
  case None
  with assms show ?thesis by (simp add: ip_try_body_obj)
next
  case (Some v)
  show ?thesis
  proof (cases "\<exists>s. v = JStr s")
    case False
    with assms Some show ?thesis
      by (cases v) (simp_all add: ip_try_body_obj)
  next
    case True
    then obtain s where v: "v = JStr s" by blast
    show ?thesis
    proof (cases "re_search_group1 s")
      case None
      with assms Some v show ?thesis by (simp add: ip_try_body_obj)
    next
      case (Some p)
      note p = Some
      show ?thesis
      proof (cases "p \<in> set CHINA_PROVINCES")
        case False
        with assms \<open>map_of kv (ascii ''ip_location'') = Some v\<close> v p show ?thesis
          by (simp add: ip_try_body_obj)
      next
        case True
        with assms \<open>map_of kv (ascii ''ip_location'') = Some v\<close> v p show ?thesis
          by (cases "map_of CHINA_PROVINCES_MAP p") (simp_all add: ip_try_body_obj)
      qed
    qed
  qed
qed

lemma ip_try_body_JSONDecodeError:
  assumes "ip_try_body l c0 = Inl JSONDecodeError"
  shows "l = Malformed"
proof (cases l)
  case Malformed
  then show ?thesis .
next
  case (Decoded rcd)
  show ?thesis
  proof (cases "\<exists>kv. rcd = JObj kv")
    case True
    then obtain kv where "rcd = JObj kv" by blast
    with Decoded assms ip_try_body_obj_error[of kv c0 JSONDecodeError] show ?thesis by simp
  next
    case False
    then have "ip_try_body (Decoded rcd) c0 = Inl AttributeError"
      by (intro ip_try_body_not_obj) simp
    with Decoded assms show ?thesis by simp
  qed
qed

lemma decoded_lines_Cons:
  "decoded_lines (l # ls) = (if l = Malformed then 0 else 1) + decoded_lines ls"
  by (simp add: decoded_lines_def)

lemma decoded_lines_le: "decoded_lines ls \<le> length ls"
  by (simp add: decoded_lines_def)

lemma ip_loop_invariant:
  assumes "ip_loop ls c0 = Inr c" "distinct (map fst c0)"
  shows "fst ` set c \<subseteq> fst ` set c0 \<union> set canonical_names
         \<and> distinct (map fst c)
         \<and> sum_list (map snd c) \<le> sum_list (map snd c0) + decoded_lines ls"
  using assms
proof (induction ls arbitrary: c0)
  case Nil
  then show ?case by (simp add: decoded_lines_def)
next
  case (Cons l ls)
  show ?case
  proof (cases "ip_try_body l c0")
    case (Inl e)
    with Cons.prems(1) have r: "ip_loop ls c0 = Inr c"
      by (simp split: if_splits)
    from Cons.IH[OF r Cons.prems(2)] show ?thesis
      by (simp add: decoded_lines_Cons)
  next
    case (Inr c1)
    with Cons.prems(1) have r: "ip_loop ls c1 = Inr c" by simp
    from ip_try_body_step[OF Inr] have l: "l \<noteq> Malformed"
      and s: "c1 = c0 \<or> (\<exists>name \<in> set canonical_names. c1 = counter_incr name c0)"
      by simp_all
    have "distinct (map fst c1) \<and> fst ` set c1 \<subseteq> fst ` set c0 \<union> set canonical_names
          \<and> sum_list (map snd c1) \<le> sum_list (map snd c0) + 1"
    proof (cases "c1 = c0")
      case True
      have "sum_list (map snd c0) \<le> sum_list (map snd c0) + 1" by linarith
      with Cons.prems(2) show ?thesis unfolding True by blast
    next
      case False
      with s obtain name where n: "name \<in> set canonical_names" "c1 = counter_incr name c0"
        by blast
      have "distinct (map fst c1)"
        unfolding n(2) by (rule distinct_counter_incr[OF Cons.prems(2)])
      moreover have "fst ` set c1 \<subseteq> fst ` set c0 \<union> set canonical_names"
        using n(1) by (auto simp: n(2) keys_counter_incr)
      moreover have "sum_list (map snd c1) = sum_list (map snd c0) + 1"
        unfolding n(2) by (rule sum_counter_incr[OF Cons.prems(2)])
      ultimately show ?thesis by linarith
    qed
    then have d1: "distinct (map fst c1)"
      and k1: "fst ` set c1 \<subseteq> fst ` set c0 \<union> set canonical_names"
      and s1: "sum_list (map snd c1) \<le> sum_list (map snd c0) + 1" by simp_all
    from Cons.IH[OF r d1] have
      k: "fst ` set c \<subseteq> fst ` set c1 \<union> set canonical_names"
      and d: "distinct (map fst c)"
      and su: "sum_list (map snd c) \<le> sum_list (map snd c1) + decoded_lines ls" by simp_all
    from k k1 have "fst ` set c \<subseteq> fst ` set c0 \<union> set canonical_names" by blast
    moreover from su s1 l have
      "sum_list (map snd c) \<le> sum_list (map snd c0) + decoded_lines (l # ls)"
      by (simp add: decoded_lines_Cons)
    ultimately show ?thesis using d by blast
  qed
qed

subsection \<open>The counting pass\<close>

lemma extract_ip_locations_invariant:
  assumes "extract_ip_locations ls = Inr c"
  shows "set (map fst c) \<subseteq> set canonical_names \<and> distinct (map fst c)
         \<and> sum_list (map snd c) \<le> decoded_lines ls"
proof -
  from assms have "ip_loop ls [] = Inr c" by (simp add: extract_ip_locations_def)
  from ip_loop_invariant[OF this] show ?thesis by simp
qed

lemma ip_loop_objects:
  "\<forall>l \<in> set ls. l = Malformed \<or> (\<exists>kv. l = Decoded (JObj kv)) \<Longrightarrow> \<exists>c. ip_loop ls c0 = Inr c"
proof (induction ls arbitrary: c0)
  case Nil
  then show ?case by simp
next
  case (Cons l ls)
  from Cons.prems have tl: "\<forall>l \<in> set ls. l = Malformed \<or> (\<exists>kv. l = Decoded (JObj kv))"
    by simp
  show ?case
  proof (cases "ip_try_body l c0")
    case (Inr c1)
    with Cons.IH[OF tl, of c1] show ?thesis by simp
  next
    case (Inl e)
    have "e = JSONDecodeError"
    proof (cases "l = Malformed")
      case True
      with Inl show ?thesis by (simp add: ip_try_body_def)
    next
      case False
      with Cons.prems obtain kv where kv: "l = Decoded (JObj kv)" by auto
      show ?thesis
      proof (cases "\<exists>s p. map_of kv (ascii ''ip_location'') = Some (JStr s)
                         \<and> re_search_group1 s = Some p \<and> p \<in> set CHINA_PROVINCES")
        case True
        then obtain s p where sp: "map_of kv (ascii ''ip_location'') = Some (JStr s)"
          "re_search_group1 s = Some p" "p \<in> set CHINA_PROVINCES" by blast
        from province_has_name[OF sp(3)] obtain name where
          "map_of CHINA_PROVINCES_MAP p = Some name" by blast
        with sp have "ip_try_body (Decoded (JObj kv)) c0 = Inr (counter_incr name c0)"
          by (simp add: ip_try_body_obj)
        with Inl kv show ?thesis by simp
      next
        case False
        from Inl kv have "ip_try_body (Decoded (JObj kv)) c0 = Inl e" by simp
        from ip_try_body_obj_error[OF this] have k: "e = KeyError" .
        have "ip_try_body (Decoded (JObj kv)) c0 = Inr c0"
        proof (cases "map_of kv (ascii ''ip_location'')")
          case None
          then show ?thesis by (simp add: ip_try_body_obj)
        next
          case (Some v)
          show ?thesis
          proof (cases "\<exists>s. v = JStr s")
            case F: False
            with Some show ?thesis by (cases v) (simp_all add: ip_try_body_obj)
          next
            case True
            then obtain s where v: "v = JStr s" by blast
            show ?thesis
            proof (cases "re_search_group1 s")
              case None
              with Some v show ?thesis by (simp add: ip_try_body_obj)
            next
              case p: (Some p)
              with False Some v have "p \<notin> set CHINA_PROVINCES" by simp
              with Some v p show ?thesis by (simp add: ip_try_body_obj)
            qed
          qed
        qed
        with Inl kv show ?thesis by simp
      qed
    qed
    with Inl Cons.IH[OF tl, of c0] show ?thesis by simp
  qed
qed

lemma ip_try_body_Malformed: "ip_try_body Malformed c = Inl JSONDecodeError"
  by (simp add: ip_try_body_def)

lemma Beijing_in_table:
  "Beijing \<in> set CHINA_PROVINCES \<and> map_of CHINA_PROVINCES_MAP Beijing = Some Beijing_shi"
  by (simp add: CHINA_PROVINCES_def CHINA_PROVINCES_MAP_def Beijing_def Beijing_shi_def)

lemma Henan_in_table:
  "Henan \<in> set CHINA_PROVINCES \<and> map_of CHINA_PROVINCES_MAP Henan = Some Henan"
  by (simp add: CHINA_PROVINCES_def CHINA_PROVINCES_MAP_def Henan_def)

lemma Mars_not_in_table: "ascii ''Mars'' \<notin> set CHINA_PROVINCES"
  by (simp add: CHINA_PROVINCES_def ascii_def)

lemma search_Beijing_today:
  "re_search_group1 (marker @ ascii '' '' @ Beijing @ ascii '' today'') = Some Beijing"
  by (simp add: marker_def ascii_def Beijing_def is_space_def)

lemma search_Mars: "re_search_group1 (marker @ ascii '' Mars'') = Some (ascii ''Mars'')"
  by (simp add: marker_def ascii_def is_space_def)

lemma search_no_marker: "re_search_group1 (ascii ''Mars'') = None"
  by (simp add: marker_def ascii_def)

lemma search_Henan: "re_search_group1 (marker @ ascii '' '' @ Henan) = Some Henan"
  by (simp add: marker_def ascii_def Henan_def is_space_def)

lemma mainland_suffixes:
  "\<forall>s \<in> set CHINA_PROVINCES. s \<noteq> Henan \<and> \<not> prefix Zhongguo s \<longrightarrow>
     (\<exists>n. map_of CHINA_PROVINCES_MAP s = Some n
          \<and> (suffix sheng n \<or> suffix shi n \<or> suffix zizhiqu n))"
  by (simp add: CHINA_PROVINCES_def CHINA_PROVINCES_MAP_def Henan_def Zhongguo_def
                sheng_def shi_def zizhiqu_def suffix_to_prefix)

lemma Henan_no_suffix:
  "\<not> suffix sheng Henan \<and> \<not> suffix shi Henan \<and> \<not> suffix zizhiqu Henan
   \<and> Henan_sheng \<noteq> Henan \<and> Henan_sheng \<notin> set canonical_names"
  by (simp add: Henan_def Henan_sheng_def sheng_def shi_def zizhiqu_def suffix_to_prefix
                canonical_names_def CHINA_PROVINCES_MAP_def)

section \<open>Location extractor: the claims\<close>







text \<open>
  C7. After the counting pass has processed any prefix of the input (the first
  \<open>n\<close> lines) and returned the counter \<open>c\<close>: every key of \<open>c\<close> is one of the display
  names of the table, of which there are 34, all different; no key occurs twice;
  and the sum of the counts is at most the number of lines that decoded, hence
  at most the number of lines read. On lines that are malformed or JSON objects
  the pass always returns.
\<close>

theorem C7_region_count_invariant:
  "(extract_ip_locations (take n ls) = Inr c \<longrightarrow>
      set (map fst c) \<subseteq> set canonical_names \<and> distinct (map fst c)
      \<and> sum_list (map snd c) \<le> decoded_lines (take n ls)
      \<and> sum_list (map snd c) \<le> length (take n ls)
      \<and> sum_list (map snd c) \<le> length ls)
   \<and> length canonical_names = 34 \<and> distinct canonical_names
   \<and> ((\<forall>l \<in> set ls. l = Malformed \<or> (\<exists>kv. l = Decoded (JObj kv))) \<longrightarrow>
        (\<exists>c'. extract_ip_locations (take n ls) = Inr c'))"
proof -
  have a: "set (map fst c) \<subseteq> set canonical_names \<and> distinct (map fst c)
      \<and> sum_list (map snd c) \<le> decoded_lines (take n ls)
      \<and> sum_list (map snd c) \<le> length (take n ls)
      \<and> sum_list (map snd c) \<le> length ls"
    if h: "extract_ip_locations (take n ls) = Inr c"
  proof -
    from extract_ip_locations_invariant[OF h] have
      i: "set (map fst c) \<subseteq> set canonical_names" "distinct (map fst c)"
         "sum_list (map snd c) \<le> decoded_lines (take n ls)" by simp_all
    have "decoded_lines (take n ls) \<le> length (take n ls)" by (rule decoded_lines_le)
    moreover have "length (take n ls) \<le> length ls" by simp
    ultimately have "sum_list (map snd c) \<le> length (take n ls)"
      "sum_list (map snd c) \<le> length ls" using i(3) by linarith+
    with i show ?thesis by blast
  qed
  have b: "\<exists>c'. extract_ip_locations (take n ls) = Inr c'"
    if h: "\<forall>l \<in> set ls. l = Malformed \<or> (\<exists>kv. l = Decoded (JObj kv))"
  proof -
    from h have "\<forall>l \<in> set (take n ls). l = Malformed \<or> (\<exists>kv. l = Decoded (JObj kv))"
      by (meson in_set_takeD)
    from ip_loop_objects[OF this, of "[]"] show ?thesis
      by (simp add: extract_ip_locations_def)
  qed
  from a b canonical_names_34 show ?thesis by blast
qed

theorem C7_region_count_invariant_witness:
  "extract_ip_locations (take 3
      [Decoded (JObj [(ascii ''ip_location'', JStr (marker @ ascii '' '' @ Beijing @ ascii '' today''))]),
       Malformed,
       Decoded (JObj [(ascii ''ip_location'', JStr (marker @ ascii '' Mars''))]),
       Decoded (JObj [])])
     = Inr [(Beijing_shi, 1)]
   \<and> set (map fst [(Beijing_shi, 1::nat)]) \<subseteq> set canonical_names
   \<and> sum_list (map snd [(Beijing_shi, 1::nat)]) \<le> length
      [Decoded (JObj [(ascii ''ip_location'', JStr (marker @ ascii '' '' @ Beijing @ ascii '' today''))]),
       Malformed,
       Decoded (JObj [(ascii ''ip_location'', JStr (marker @ ascii '' Mars''))]),
       Decoded (JObj [])]
   \<and> (\<exists>c'. extract_ip_locations (take 3
      [Decoded (JObj [(ascii ''ip_location'', JStr (marker @ ascii '' '' @ Beijing @ ascii '' today''))]),
       Malformed,
       Decoded (JObj [(ascii ''ip_location'', JStr (marker @ ascii '' Mars''))]),
       Decoded (JObj [])]) = Inr c')"
proof -
  let ?ls = "[Decoded (JObj [(ascii ''ip_location'', JStr (marker @ ascii '' '' @ Beijing @ ascii '' today''))]),
       Malformed,
       Decoded (JObj [(ascii ''ip_location'', JStr (marker @ ascii '' Mars''))]),
       Decoded (JObj [])]"
  have e: "extract_ip_locations (take 3 ?ls) = Inr [(Beijing_shi, 1)]"
    using Beijing_in_table Mars_not_in_table
    by (simp add: extract_ip_locations_def ip_try_body_obj ip_try_body_Malformed
                  search_Beijing_today search_Mars
                  counter_incr_def dict_setdefault_def dict_modify_def)
  have o: "\<forall>l \<in> set ?ls. l = Malformed \<or> (\<exists>kv. l = Decoded (JObj kv))" by simp
  from C7_region_count_invariant[of 3 ?ls "[(Beijing_shi, 1)]"] e o show ?thesis
    by blast
qed

text \<open>
  C10. In the table the short name Henan is mapped to Henan itself, which ends in
  none of the suffixes sheng, shi, zizhiqu, while every other short name of the
  table that does not start with Zhongguo (the mainland ones) is mapped to a name
  ending in one of the three. So a record whose location token is Henan adds one
  to the counter of the key Henan and leaves the key Henan sheng alone; Henan
  sheng is not a display name of the table at all.
\<close>

theorem C10_henan_display_name:
  "map_of CHINA_PROVINCES_MAP Henan = Some Henan
   \<and> \<not> suffix sheng Henan \<and> \<not> suffix shi Henan \<and> \<not> suffix zizhiqu Henan
   \<and> (\<forall>s \<in> set CHINA_PROVINCES. s \<noteq> Henan \<and> \<not> prefix Zhongguo s \<longrightarrow>
        (\<exists>n. map_of CHINA_PROVINCES_MAP s = Some n
             \<and> (suffix sheng n \<or> suffix shi n \<or> suffix zizhiqu n)))
   \<and> Henan_sheng \<notin> set canonical_names
   \<and> (map_of kv (ascii ''ip_location'') = Some (JStr s) \<and> re_search_group1 s = Some Henan \<longrightarrow>
        (\<exists>c'. ip_try_body (Decoded (JObj kv)) c = Inr c'
              \<and> counter_get c' Henan = counter_get c Henan + 1
              \<and> counter_get c' Henan_sheng = counter_get c Henan_sheng))"
proof -
  have a: "\<exists>c'. ip_try_body (Decoded (JObj kv)) c = Inr c'
              \<and> counter_get c' Henan = counter_get c Henan + 1
              \<and> counter_get c' Henan_sheng = counter_get c Henan_sheng"
    if "map_of kv (ascii ''ip_location'') = Some (JStr s)" "re_search_group1 s = Some Henan"
  proof -
    from that Henan_in_table
    have "ip_try_body (Decoded (JObj kv)) c = Inr (counter_incr Henan c)"
      by (simp add: ip_try_body_obj)
    with Henan_no_suffix show ?thesis by (simp add: counter_get_incr)
  qed
  from a Henan_in_table Henan_no_suffix mainland_suffixes show ?thesis by blast
qed

theorem C10_henan_display_name_witness:
  "map_of [(ascii ''ip_location'', JStr (marker @ ascii '' '' @ Henan))] (ascii ''ip_location'')
      = Some (JStr (marker @ ascii '' '' @ Henan))
   \<and> re_search_group1 (marker @ ascii '' '' @ Henan) = Some Henan
   \<and> (\<exists>c'. ip_try_body (Decoded (JObj [(ascii ''ip_location'', JStr (marker @ ascii '' '' @ Henan))]))
              [] = Inr c'
         \<and> counter_get c' Henan = 1 \<and> counter_get c' Henan_sheng = 0)
   \<and> Beijing \<in> set CHINA_PROVINCES \<and> Beijing \<noteq> Henan \<and> \<not> prefix Zhongguo Beijing
   \<and> (\<exists>n. map_of CHINA_PROVINCES_MAP Beijing = Some n
          \<and> (suffix sheng n \<or> suffix shi n \<or> suffix zizhiqu n))"
proof -
  let ?s = "marker @ ascii '' '' @ Henan"
  let ?kv = "[(ascii ''ip_location'', JStr ?s)]"
  have h: "map_of ?kv (ascii ''ip_location'') = Some (JStr ?s)" by simp
  have g: "counter_get [] Henan = 0" "counter_get [] Henan_sheng = 0"
    by (simp_all add: counter_get_def)
  have b: "Beijing \<in> set CHINA_PROVINCES" "Beijing \<noteq> Henan" "\<not> prefix Zhongguo Beijing"
    using Beijing_in_table by (simp_all add: Beijing_def Henan_def Zhongguo_def)
  note t = C10_henan_display_name[of ?kv ?s "[]"]
  from t h search_Henan g
  have "\<exists>c'. ip_try_body (Decoded (JObj ?kv)) [] = Inr c'
         \<and> counter_get c' Henan = 1 \<and> counter_get c' Henan_sheng = 0" by auto
  moreover from t b have "\<exists>n. map_of CHINA_PROVINCES_MAP Beijing = Some n
          \<and> (suffix sheng n \<or> suffix shi n \<or> suffix zizhiqu n)" by blast
  ultimately show ?thesis using h search_Henan b by blast
qed

section \<open>Video source: one item\<close>

lemma process_item_eq:
  "process_item lt item s =
     ebind (item_year lt item) (\<lambda>y.
     ebind (item_count item (ascii ''liked_count'')) (\<lambda>a.
     ebind (item_count item (ascii ''collected_count'')) (\<lambda>b.
     ebind (item_count item (ascii ''comment_count'')) (\<lambda>c.
     ebind (item_count item (ascii ''share_count'')) (\<lambda>d.
       Inr (video_update y a b c d s))))))"
  by (simp add: process_item_def item_year_def item_count_def video_update_def ebind_def Let_def
           split: sum.splits)

lemma process_item_Inl_any_state:
  "process_item lt item s = Inl e \<Longrightarrow> process_item lt item s' = Inl e"
  by (simp add: process_item_eq ebind_def split: sum.splits)

lemma process_item_year_error:
  "item_year lt item = Inl e \<Longrightarrow> process_item lt item s = Inl e"
  by (simp add: process_item_eq ebind_def)

lemma process_item_count_error:
  assumes "key \<in> set engagement_keys" "item_count item key = Inl e"
  shows "\<exists>e'. process_item lt item s = Inl e'"
  using assms
  by (auto simp: process_item_eq engagement_keys_def ebind_def split: sum.splits)

lemma process_item_Inr:
  assumes "item_year lt item = Inr y"
    "item_count item (ascii ''liked_count'') = Inr a"
    "item_count item (ascii ''collected_count'') = Inr b"
    "item_count item (ascii ''comment_count'') = Inr c"
    "item_count item (ascii ''share_count'') = Inr d"
  shows "process_item lt item s = Inr (video_update y a b c d s)"
  using assms by (simp add: process_item_eq ebind_def)

lemma process_item_Inr_D:
  assumes "process_item lt item s = Inr s'"
  shows "\<exists>y a b c d. item_year lt item = Inr y
    \<and> item_count item (ascii ''liked_count'') = Inr a
    \<and> item_count item (ascii ''collected_count'') = Inr b
    \<and> item_count item (ascii ''comment_count'') = Inr c
    \<and> item_count item (ascii ''share_count'') = Inr d
    \<and> s' = video_update y a b c d s"
  using assms by (simp add: process_item_eq ebind_def split: sum.splits)

lemma item_count_obj:
  "item_count (JObj kv) key = (case map_of kv key of None \<Rightarrow> Inr 0 | Some v \<Rightarrow> py_int v)"
  by (simp add: item_count_def py_get_def ebind_def py_int_def split: option.splits)

lemma item_year_obj:
  "item_year lt (JObj kv) =
     (case map_of kv (ascii ''create_time'') of
        None \<Rightarrow> Inl KeyError | Some v \<Rightarrow> fromtimestamp_year lt v)"
  by (simp add: item_year_def py_subscript_def ebind_def split: option.splits)

lemma item_year_not_obj: "\<forall>kv. item \<noteq> JObj kv \<Longrightarrow> item_year lt item = Inl TypeError"
  by (cases item) (simp_all add: item_year_def py_subscript_def ebind_def)

lemma map_of_video_update:
  "map_of (video_update y a b c d s) y' =
     (if y' = y then
        Some \<lparr>post_count = post_count (entry_of s y) + 1,
              total_likes = total_likes (entry_of s y) + a,
              total_collections = total_collections (entry_of s y) + b,
              total_comments = total_comments (entry_of s y) + c,
              total_shares = total_shares (entry_of s y) + d\<rparr>
      else map_of s y')"
  by (simp add: video_update_def map_of_dict_modify map_of_dict_setdefault entry_of_def
                new_video_entry_def split: option.splits)

lemma keys_video_update: "fst ` set (video_update y a b c d s) = insert y (fst ` set s)"
  by (simp add: video_update_def keys_dict_modify keys_dict_setdefault)

lemma distinct_video_update:
  "distinct (map fst s) \<Longrightarrow> distinct (map fst (video_update y a b c d s))"
  by (simp add: video_update_def map_fst_dict_modify distinct_dict_setdefault)

lemma process_data_loop_abort:
  assumes "item \<in> set items" "process_item lt item s0 = Inl e"
  shows "\<exists>e'. process_data_loop lt items s = Inl e'"
  using assms(1)
proof (induction items arbitrary: s)
  case Nil
  then show ?case by simp
next
  case (Cons i items)
  show ?case
  proof (cases "process_item lt i s")
    case (Inl e1)
    then show ?thesis by simp
  next
    case (Inr s1)
    have "i \<noteq> item"
    proof
      assume "i = item"
      with process_item_Inl_any_state[OF assms(2), of s] Inr show False by simp
    qed
    with Cons.prems have "item \<in> set items" by simp
    from Cons.IH[OF this, of s1] Inr show ?thesis by simp
  qed
qed

lemma process_data_abort:
  assumes "item \<in> set items" "process_item lt item s0 = Inl e"
  shows "\<exists>e'. process_data lt (JArr items) = Inl e'"
  using process_data_loop_abort[OF assms, of "[]"]
  by (simp add: process_data_def py_iter_def ebind_def)

lemma process_data_loop_first_error:
  assumes "process_data_loop lt pre s = Inr s1" "process_item lt item s0 = Inl e"
  shows "process_data_loop lt (pre @ item # post) s = Inl e"
  using assms(1)
proof (induction pre arbitrary: s)
  case Nil
  then have "s1 = s" by simp
  with process_item_Inl_any_state[OF assms(2), of s] show ?case by simp
next
  case (Cons i pre)
  then show ?case by (cases "process_item lt i s") simp_all
qed

lemma utc_year_2021: "utc_year 1609459200 = Inr 2021"
  by code_simp

lemma utc_year_edges:
  "utc_year (- 62135596800) = Inl ValueError \<and> utc_year (- 62135510400) = Inr 1
   \<and> utc_year 253402300799 = Inr 9999 \<and> utc_year 253402300800 = Inl ValueError
   \<and> utc_year 9223372036854775808 = Inl OverflowError
   \<and> utc_year 67768036191676800 = Inl OSError \<and> utc_year 1 = Inr 1970
   \<and> utc_year (- 1) = Inr 1969"
  by code_simp

lemma py_int_examples:
  "py_int (JStr (ascii ''abc'')) = Inl ValueError \<and> py_int JNull = Inl TypeError
   \<and> py_int (JStr (ascii ''12'')) = Inr 12 \<and> py_int (JFloat (Fin (7 / 2))) = Inr 3"
proof -
  have "\<lfloor>7 / 2 :: rat\<rfloor> = 3" by (simp add: floor_eq_iff)
  then show ?thesis
    by (simp add: py_int_def py_int_str_def ascii_def to_ascii_char_def ascii_space_def
                  int_max_str_digits_def Let_def)
qed

text \<open>
  C3. In \<open>process_data\<close>, \<open>int(item.get(key, 0))\<close> is 0 when the key is absent and
  \<open>int\<close> of the value when it is present. If the year and the four counts are
  obtained, the item is folded in: the entry of its year gets one more post and
  the four counts added, the other years are untouched. If \<open>int\<close> raises on one
  of the four fields, the iteration returns an error (the one of the first field
  that fails, when the year was obtained), and so does \<open>process_data\<close> on every
  list that contains the item: no table is returned.
\<close>

theorem C3_video_engagement_fields:
  "(map_of kv key = None \<longrightarrow> item_count (JObj kv) key = Inr 0)
   \<and> (map_of kv key = Some v \<longrightarrow> item_count (JObj kv) key = py_int v)
   \<and> (item_year lt item = Inr y
        \<and> item_count item (ascii ''liked_count'') = Inr a
        \<and> item_count item (ascii ''collected_count'') = Inr b
        \<and> item_count item (ascii ''comment_count'') = Inr c
        \<and> item_count item (ascii ''share_count'') = Inr d \<longrightarrow>
      (\<exists>s'. process_item lt item s = Inr s'
         \<and> entry_of s' y =
             \<lparr>post_count = post_count (entry_of s y) + 1,
              total_likes = total_likes (entry_of s y) + a,
              total_collections = total_collections (entry_of s y) + b,
              total_comments = total_comments (entry_of s y) + c,
              total_shares = total_shares (entry_of s y) + d\<rparr>
         \<and> (\<forall>y'. y' \<noteq> y \<longrightarrow> map_of s' y' = map_of s y')))
   \<and> (k \<in> set engagement_keys \<and> item_count item k = Inl e \<longrightarrow>
        (\<exists>e'. process_item lt item s = Inl e')
        \<and> (item \<in> set items \<longrightarrow> (\<exists>e'. process_data lt (JArr items) = Inl e')))
   \<and> (item_year lt item = Inr y \<and> item_count item (ascii ''liked_count'') = Inl e \<longrightarrow>
        process_item lt item s = Inl e)
   \<and> py_int (JStr (ascii ''abc'')) = Inl ValueError \<and> py_int JNull = Inl TypeError
   \<and> py_int (JStr (ascii ''12'')) = Inr 12 \<and> py_int (JFloat (Fin (7 / 2))) = Inr 3"
proof -
  have p1: "item_count (JObj kv) key = Inr 0" if "map_of kv key = None"
    using that by (simp add: item_count_obj)
  have p2: "item_count (JObj kv) key = py_int v" if "map_of kv key = Some v"
    using that by (simp add: item_count_obj)
  have p3: "\<exists>s'. process_item lt item s = Inr s'
         \<and> entry_of s' y =
             \<lparr>post_count = post_count (entry_of s y) + 1,
              total_likes = total_likes (entry_of s y) + a,
              total_collections = total_collections (entry_of s y) + b,
              total_comments = total_comments (entry_of s y) + c,
              total_shares = total_shares (entry_of s y) + d\<rparr>
         \<and> (\<forall>y'. y' \<noteq> y \<longrightarrow> map_of s' y' = map_of s y')"
    if "item_year lt item = Inr y"
        "item_count item (ascii ''liked_count'') = Inr a"
        "item_count item (ascii ''collected_count'') = Inr b"
        "item_count item (ascii ''comment_count'') = Inr c"
        "item_count item (ascii ''share_count'') = Inr d"
  proof -
    let ?s' = "video_update y a b c d s"
    have "process_item lt item s = Inr ?s'" using that by (rule process_item_Inr)
    moreover have "entry_of ?s' y =
             \<lparr>post_count = post_count (entry_of s y) + 1,
              total_likes = total_likes (entry_of s y) + a,
              total_collections = total_collections (entry_of s y) + b,
              total_comments = total_comments (entry_of s y) + c,
              total_shares = total_shares (entry_of s y) + d\<rparr>"
      by (simp add: entry_of_def[of ?s'] map_of_video_update)
    moreover have "\<forall>y'. y' \<noteq> y \<longrightarrow> map_of ?s' y' = map_of s y'"
      by (simp add: map_of_video_update)
    ultimately show ?thesis by blast
  qed
  have p4: "(\<exists>e'. process_item lt item s = Inl e')
        \<and> (item \<in> set items \<longrightarrow> (\<exists>e'. process_data lt (JArr items) = Inl e'))"
    if "k \<in> set engagement_keys" "item_count item k = Inl e"
  proof -
    from process_item_count_error[OF that, of lt s] obtain e' where
      e': "process_item lt item s = Inl e'" by blast
    then have "\<exists>e'. process_data lt (JArr items) = Inl e'" if "item \<in> set items"
      using process_data_abort[OF that] by blast
    with e' show ?thesis by blast
  qed
  have p5: "process_item lt item s = Inl e"
    if "item_year lt item = Inr y" "item_count item (ascii ''liked_count'') = Inl e"
    using that by (simp add: process_item_eq ebind_def)
  from p1 p2 p3 p4 p5 py_int_examples show ?thesis by blast
qed

theorem C3_video_engagement_fields_witness:
  "item_count (JObj [(ascii ''create_time'', JInt 1609459200),
                     (ascii ''liked_count'', JStr (ascii ''12''))]) (ascii ''share_count'') = Inr 0
   \<and> item_count (JObj [(ascii ''create_time'', JInt 1609459200),
                     (ascii ''liked_count'', JStr (ascii ''12''))]) (ascii ''liked_count'') = Inr 12
   \<and> (\<exists>s'. process_item utc_year
              (JObj [(ascii ''create_time'', JInt 1609459200),
                     (ascii ''liked_count'', JStr (ascii ''12''))]) [] = Inr s'
         \<and> entry_of s' 2021 =
             \<lparr>post_count = 1, total_likes = 12, total_collections = 0, total_comments = 0,
              total_shares = 0\<rparr>)
   \<and> ascii ''share_count'' \<in> set engagement_keys
   \<and> item_count (JObj [(ascii ''create_time'', JInt 1609459200),
                     (ascii ''share_count'', JStr (ascii ''abc''))]) (ascii ''share_count'')
       = Inl ValueError
   \<and> (\<exists>e'. process_data utc_year (JArr
         [JObj [(ascii ''create_time'', JInt 1609459200),
                (ascii ''liked_count'', JStr (ascii ''12''))],
          JObj [(ascii ''create_time'', JInt 1609459200),
                (ascii ''share_count'', JStr (ascii ''abc''))]]) = Inl e')
   \<and> process_item utc_year
        (JObj [(ascii ''create_time'', JInt 1609459200), (ascii ''liked_count'', JNull)]) []
       = Inl TypeError"
proof -
  let ?good = "JObj [(ascii ''create_time'', JInt 1609459200),
                     (ascii ''liked_count'', JStr (ascii ''12''))]"
  let ?bad = "JObj [(ascii ''create_time'', JInt 1609459200),
                     (ascii ''share_count'', JStr (ascii ''abc''))]"
  let ?null = "JObj [(ascii ''create_time'', JInt 1609459200), (ascii ''liked_count'', JNull)]"
  have k: "ascii ''liked_count'' \<noteq> ascii ''create_time''"
    "ascii ''share_count'' \<noteq> ascii ''create_time''"
    "ascii ''collected_count'' \<noteq> ascii ''create_time''"
    "ascii ''comment_count'' \<noteq> ascii ''create_time''"
    "ascii ''share_count'' \<noteq> ascii ''liked_count''"
    "ascii ''collected_count'' \<noteq> ascii ''liked_count''"
    "ascii ''comment_count'' \<noteq> ascii ''liked_count''"
    by (simp_all add: ascii_def)
  have yg: "item_year utc_year ?good = Inr 2021" "item_year utc_year ?null = Inr 2021"
    by (simp_all add: item_year_obj fromtimestamp_year_def utc_year_2021)
  have cg: "item_count ?good (ascii ''liked_count'') = Inr 12"
    "item_count ?good (ascii ''collected_count'') = Inr 0"
    "item_count ?good (ascii ''comment_count'') = Inr 0"
    "item_count ?good (ascii ''share_count'') = Inr 0"
    using py_int_examples k by (simp_all add: item_count_obj)
  have cb: "item_count ?bad (ascii ''share_count'') = Inl ValueError"
    using py_int_examples k by (simp add: item_count_obj)
  have cn: "item_count ?null (ascii ''liked_count'') = Inl TypeError"
    using py_int_examples k by (simp add: item_count_obj)
  have m1: "map_of [(ascii ''create_time'', JInt 1609459200),
                     (ascii ''liked_count'', JStr (ascii ''12''))] (ascii ''share_count'') = None"
    using k by simp
  have m2: "map_of [(ascii ''create_time'', JInt 1609459200),
                     (ascii ''liked_count'', JStr (ascii ''12''))] (ascii ''liked_count'')
            = Some (JStr (ascii ''12''))"
    using k by simp
  have e0: "entry_of [] 2021 = new_video_entry" by (simp add: entry_of_def)
  have ke: "ascii ''share_count'' \<in> set engagement_keys" by (simp add: engagement_keys_def)
  note t1 = C3_video_engagement_fields
    [where kv = "[(ascii ''create_time'', JInt 1609459200),
                  (ascii ''liked_count'', JStr (ascii ''12''))]"
       and key = "ascii ''share_count''" and v = JNull
       and lt = utc_year and item = ?good and y = 2021 and a = 12 and b = 0 and c = 0 and d = 0
       and s = "[]" and k = "ascii ''share_count''" and e = ValueError and items = "[]"]
  note t2 = C3_video_engagement_fields
    [where kv = "[(ascii ''create_time'', JInt 1609459200),
                  (ascii ''liked_count'', JStr (ascii ''12''))]"
       and key = "ascii ''liked_count''" and v = "JStr (ascii ''12'')"
       and lt = utc_year and item = ?bad and y = 2021 and a = 12 and b = 0 and c = 0 and d = 0
       and s = "[]" and k = "ascii ''share_count''" and e = ValueError
       and items = "[?good, ?bad]"]
  note t3 = C3_video_engagement_fields
    [where kv = "[]" and key = "[]" and v = JNull
       and lt = utc_year and item = ?null and y = 2021 and a = 12 and b = 0 and c = 0 and d = 0
       and s = "[]" and k = "ascii ''share_count''" and e = TypeError and items = "[]"]
  have r1: "item_count ?good (ascii ''share_count'') = Inr 0" using t1 m1 by blast
  have r2: "item_count ?good (ascii ''liked_count'') = Inr 12"
    using t2 m2 py_int_examples by simp
  have "\<exists>s'. process_item utc_year ?good [] = Inr s'
         \<and> entry_of s' 2021 =
             \<lparr>post_count = post_count (entry_of [] 2021) + 1,
              total_likes = total_likes (entry_of [] 2021) + 12,
              total_collections = total_collections (entry_of [] 2021) + 0,
              total_comments = total_comments (entry_of [] 2021) + 0,
              total_shares = total_shares (entry_of [] 2021) + 0\<rparr>"
    using t1 yg(1) cg by blast
  then have r3: "\<exists>s'. process_item utc_year ?good [] = Inr s'
         \<and> entry_of s' 2021 =
             \<lparr>post_count = 1, total_likes = 12, total_collections = 0, total_comments = 0,
              total_shares = 0\<rparr>"
    by (simp add: e0 new_video_entry_def)
  have r4: "\<exists>e'. process_data utc_year (JArr [?good, ?bad]) = Inl e'"
    using t2 ke cb by simp
  have r5: "process_item utc_year ?null [] = Inl TypeError"
    using t3 yg(2) cn by blast
  from r1 r2 r3 ke cb r4 r5 show ?thesis by blast
qed

text \<open>
  C9. In \<open>process_data\<close>, an item without the key \<open>create_time\<close> raises \<open>KeyError\<close>,
  and one whose \<open>create_time\<close> is refused by \<open>datetime.fromtimestamp\<close> (a string
  and \<open>null\<close> are, with \<open>TypeError\<close>) raises that error. Nothing catches it: the
  pass over a list whose items before it were folded in returns exactly this
  error, the pass over any list that contains such an item returns an error, and
  a pass that returns a table has obtained a year from every item.
\<close>

theorem C9_video_timestamp_aborts:
  "(map_of kv (ascii ''create_time'') = None \<longrightarrow> process_item lt (JObj kv) s = Inl KeyError)
   \<and> (map_of kv (ascii ''create_time'') = Some v \<and> fromtimestamp_year lt v = Inl e \<longrightarrow>
        process_item lt (JObj kv) s = Inl e)
   \<and> (process_data_loop lt pre [] = Inr sp \<and> item_year lt item = Inl e \<longrightarrow>
        process_data lt (JArr (pre @ item # post)) = Inl e)
   \<and> (item \<in> set items \<and> item_year lt item = Inl e \<longrightarrow>
        (\<exists>e'. process_data lt (JArr items) = Inl e'))
   \<and> (process_data lt (JArr items) = Inr t \<longrightarrow>
        (\<forall>item \<in> set items. \<exists>y. item_year lt item = Inr y))
   \<and> fromtimestamp_year lt (JStr str) = Inl TypeError
   \<and> fromtimestamp_year lt JNull = Inl TypeError"
proof -
  have p1: "process_item lt (JObj kv) s = Inl KeyError"
    if "map_of kv (ascii ''create_time'') = None"
    using that by (simp add: process_item_year_error item_year_obj)
  have p2: "process_item lt (JObj kv) s = Inl e"
    if "map_of kv (ascii ''create_time'') = Some v" "fromtimestamp_year lt v = Inl e"
    using that by (simp add: process_item_year_error item_year_obj)
  have p3: "process_data lt (JArr (pre @ item # post)) = Inl e"
    if "process_data_loop lt pre [] = Inr sp" "item_year lt item = Inl e"
  proof -
    from that(2) have "process_item lt item [] = Inl e" by (rule process_item_year_error)
    from process_data_loop_first_error[OF that(1) this, of post] show ?thesis
      by (simp add: process_data_def py_iter_def ebind_def)
  qed
  have p4: "\<exists>e'. process_data lt (JArr items) = Inl e'"
    if "item \<in> set items" "item_year lt item = Inl e" for item e
  proof -
    from that(2) have "process_item lt item [] = Inl e" by (rule process_item_year_error)
    from process_data_abort[OF that(1) this] show ?thesis .
  qed
  have p5: "\<forall>item \<in> set items. \<exists>y. item_year lt item = Inr y"
    if r: "process_data lt (JArr items) = Inr t"
  proof
    fix item assume i: "item \<in> set items"
    show "\<exists>y. item_year lt item = Inr y"
    proof (cases "item_year lt item")
      case (Inl e)
      from p4[OF i Inl] r show ?thesis by simp
    next
      case (Inr y)
      then show ?thesis by blast
    qed
  qed
  have p6: "fromtimestamp_year lt (JStr str) = Inl TypeError"
    "fromtimestamp_year lt JNull = Inl TypeError"
    by (simp_all add: fromtimestamp_year_def)
  from p1 p2 p3 p4 p5 p6 show ?thesis by blast
qed

theorem C9_video_timestamp_aborts_witness:
  "process_item utc_year (JObj [(ascii ''liked_count'', JInt 5)]) [] = Inl KeyError
   \<and> process_item utc_year (JObj [(ascii ''create_time'', JStr (ascii ''2021''))]) []
       = Inl TypeError
   \<and> process_data utc_year (JArr
        [JObj [(ascii ''create_time'', JInt 1609459200)],
         JObj [(ascii ''liked_count'', JInt 5)],
         JObj [(ascii ''create_time'', JInt 1609459200)]]) = Inl KeyError
   \<and> (\<exists>e'. process_data utc_year (JArr
        [JObj [(ascii ''create_time'', JInt 1609459200)],
         JObj [(ascii ''create_time'', JStr (ascii ''2021''))]]) = Inl e')
   \<and> (\<exists>t. process_data utc_year (JArr [JObj [(ascii ''create_time'', JInt 1609459200)]]) = Inr t)
   \<and> (\<exists>y. item_year utc_year (JObj [(ascii ''create_time'', JInt 1609459200)]) = Inr y)"
proof -
  let ?good = "JObj [(ascii ''create_time'', JInt 1609459200)]"
  let ?nokey = "JObj [(ascii ''liked_count'', JInt 5)]"
  let ?str = "JObj [(ascii ''create_time'', JStr (ascii ''2021''))]"
  have k: "ascii ''liked_count'' \<noteq> ascii ''create_time''"
    "ascii ''share_count'' \<noteq> ascii ''create_time''"
    "ascii ''collected_count'' \<noteq> ascii ''create_time''"
    "ascii ''comment_count'' \<noteq> ascii ''create_time''"
    by (simp_all add: ascii_def)
  have m1: "map_of [(ascii ''liked_count'', JInt 5)] (ascii ''create_time'') = None"
    using k by simp
  have m2: "map_of [(ascii ''create_time'', JStr (ascii ''2021''))] (ascii ''create_time'')
            = Some (JStr (ascii ''2021''))" by simp
  have f: "fromtimestamp_year utc_year (JStr (ascii ''2021'')) = Inl TypeError"
    by (simp add: fromtimestamp_year_def)
  have yg: "item_year utc_year ?good = Inr 2021"
    by (simp add: item_year_obj fromtimestamp_year_def utc_year_2021)
  have cg: "item_count ?good (ascii ''liked_count'') = Inr 0"
    "item_count ?good (ascii ''collected_count'') = Inr 0"
    "item_count ?good (ascii ''comment_count'') = Inr 0"
    "item_count ?good (ascii ''share_count'') = Inr 0"
    using k by (simp_all add: item_count_obj)
  have g: "process_item utc_year ?good [] = Inr (video_update 2021 0 0 0 0 [])"
    using yg cg by (rule process_item_Inr)
  then have l: "process_data_loop utc_year [?good] [] = Inr (video_update 2021 0 0 0 0 [])"
    by simp
  then have d: "process_data utc_year (JArr [?good]) = Inr (video_update 2021 0 0 0 0 [])"
    by (simp add: process_data_def py_iter_def ebind_def)
  have yn: "item_year utc_year ?nokey = Inl KeyError" using m1 by (simp add: item_year_obj)
  have ys: "item_year utc_year ?str = Inl TypeError" using f by (simp add: item_year_obj)
  note t1 = C9_video_timestamp_aborts
    [where kv = "[(ascii ''liked_count'', JInt 5)]" and lt = utc_year and s = "[]"
       and v = JNull and e = KeyError and pre = "[?good]"
       and sp = "video_update 2021 0 0 0 0 []" and item = ?nokey and post = "[?good]"
       and items = "[?good]" and t = "video_update 2021 0 0 0 0 []" and str = "[]"]
  note t2 = C9_video_timestamp_aborts
    [where kv = "[(ascii ''create_time'', JStr (ascii ''2021''))]" and lt = utc_year
       and s = "[]" and v = "JStr (ascii ''2021'')" and e = TypeError and pre = "[]"
       and sp = "[]" and item = ?str and post = "[]"
       and items = "[?good, ?str]" and t = "[]" and str = "[]"]
  have r1: "process_item utc_year ?nokey [] = Inl KeyError" using t1 m1 by blast
  have r2: "process_item utc_year ?str [] = Inl TypeError" using t2 m2 f by blast
  have r3: "process_data utc_year (JArr ([?good] @ ?nokey # [?good])) = Inl KeyError"
    using t1 l yn by blast
  have r4: "\<exists>e'. process_data utc_year (JArr [?good, ?str]) = Inl e'"
    using t2 ys by simp
  have r5: "\<exists>y. item_year utc_year ?good = Inr y" using t1 d by simp
  from r1 r2 r3 r4 r5 d show ?thesis by simp
qed

section \<open>Microblog source: one line\<close>

lemma dict_modify_id: "(\<And>v. f v = v) \<Longrightarrow> dict_modify k f d = d"
  unfolding dict_modify_def by (induction d) auto

lemma weibo_try_body_eq:
  "weibo_try_body l s =
     (case weibo_line_year l of
        Some y \<Rightarrow> Inr (dict_modify y (\<lambda>n. n + 1) (dict_setdefault y 0 s))
      | None \<Rightarrow> (case weibo_line_error l of Some e \<Rightarrow> Inl e | None \<Rightarrow> Inr s))"
  by (cases l)
     (simp_all add: weibo_try_body_def weibo_line_year_def weibo_line_error_def ebind_def
               split: sum.splits)

lemma weibo_ext_try_body_eq:
  "fst (weibo_ext_try_body l s) =
     (case weibo_line_year l of
        Some y \<Rightarrow> weibo_update y (weibo_line_reads l) s
      | None \<Rightarrow> s)"
proof (cases l)
  case Malformed
  then show ?thesis by (simp add: weibo_ext_try_body_def weibo_line_year_def)
next
  case (Decoded rcd)
  have z: "dict_modify y (\<lambda>e. e) d = d" for y :: int and d :: weibo_stats
    by (rule dict_modify_id) simp
  show ?thesis
    unfolding Decoded
    by (simp add: weibo_ext_try_body_def weibo_line_year_def weibo_line_reads_def
                  weibo_update_def Let_def z split: sum.splits)
qed


lemma keys_weibo_update: "fst ` set (weibo_update y r s) = insert y (fst ` set s)"
  by (simp add: weibo_update_def keys_dict_modify keys_dict_setdefault)

lemma distinct_weibo_update:
  "distinct (map fst s) \<Longrightarrow> distinct (map fst (weibo_update y r s))"
  by (simp add: weibo_update_def map_fst_dict_modify distinct_dict_setdefault)

lemma weibo_line_year_obj:
  "weibo_line_year (Decoded (JObj kv)) =
     (case map_of kv (ascii ''created_at'') of
        None \<Rightarrow> None
      | Some d \<Rightarrow> if \<not> py_truthy d then None
                  else (case strptime_year d of Inl e \<Rightarrow> None | Inr y \<Rightarrow> Some y))"
  by (simp add: weibo_line_year_def py_get_def split: option.splits)

lemma weibo_line_error_obj:
  "weibo_line_error (Decoded (JObj kv)) =
     (case map_of kv (ascii ''created_at'') of
        None \<Rightarrow> None
      | Some d \<Rightarrow> if \<not> py_truthy d then None
                  else (case strptime_year d of Inl e \<Rightarrow> Some e | Inr y \<Rightarrow> None))"
  by (simp add: weibo_line_error_def py_get_def split: option.splits)


lemma weibo_loop_skip:
  "weibo_line_year l = None \<Longrightarrow> weibo_line_error l = None \<or> weibo_line_error l = Some JSONDecodeError
   \<Longrightarrow> weibo_loop (l # ls) s = weibo_loop ls s"
  by (auto simp: weibo_try_body_eq)

lemma weibo_loop_abort:
  "weibo_line_year l = None \<Longrightarrow> weibo_line_error l = Some e \<Longrightarrow> e \<noteq> JSONDecodeError
   \<Longrightarrow> weibo_loop (l # ls) s = Inl e"
  by (simp add: weibo_try_body_eq)

lemma weibo_ext_loop_skip:
  "weibo_line_year l = None \<Longrightarrow> weibo_ext_loop (l # ls) s = weibo_ext_loop ls s"
  by (simp add: weibo_ext_try_body_eq)

lemma weibo_ext_loop_append:
  "weibo_ext_loop (xs @ ys) s = weibo_ext_loop ys (weibo_ext_loop xs s)"
  by (induction xs arbitrary: s) simp_all


lemma reads_added_no_year: "weibo_line_year l = None \<Longrightarrow> reads_added l s y' = 0"
  by (simp add: reads_added_def weibo_ext_try_body_eq)

lemma strptime_year_errors:
  assumes "strptime_year d = Inl e"
  shows "e = ValueError \<or> e = TypeError"
proof (cases d)
  case (JStr s)
  show ?thesis
  proof (cases "strptime_fields s")
    case None
    with JStr assms show ?thesis by (simp add: strptime_year_def)
  next
    case (Some f)
    obtain Y m d' H M S where f: "f = (Y, m, d', H, M, S)" by (cases f)
    with JStr Some assms show ?thesis by (simp add: strptime_year_def split: if_splits)
  qed
qed (use assms in \<open>simp_all add: strptime_year_def\<close>)

lemma weibo_loop_append:
  "weibo_loop (xs @ ys) s = (case weibo_loop xs s of Inl e \<Rightarrow> Inl e | Inr s' \<Rightarrow> weibo_loop ys s')"
  by (induction xs arbitrary: s) (auto split: sum.splits)

lemma decimal_value_ascii_digit:
  "48 \<le> c \<Longrightarrow> c \<le> 57 \<Longrightarrow> decimal_value c = Some (c - 48)"
  by (simp add: decimal_value_def decimal_zeros_def)







lemma good_date_fields:
  "strptime_fields (ascii ''2025-07-01 12:28:00'') = Some (2025, 7, 1, 12, 28, 0)"
  by (simp add: strptime_fields_def ascii_def is_d_def dval_def between_def
                decimal_value_ascii_digit is_space_def)

lemma bad_date_fields: "strptime_fields (ascii ''2025/07/01 12:28:00'') = None"
  by (simp add: strptime_fields_def ascii_def is_d_def dval_def between_def
                decimal_value_ascii_digit is_space_def)

lemma date_examples:
  "strptime_year (JStr (ascii ''2025/07/01 12:28:00'')) = Inl ValueError
   \<and> py_truthy (JStr (ascii ''2025/07/01 12:28:00''))
   \<and> strptime_year (JStr (ascii ''2025-07-01 12:28:00'')) = Inr 2025
   \<and> py_truthy (JStr (ascii ''2025-07-01 12:28:00''))
   \<and> strptime_year (JInt 20250701) = Inl TypeError"
  by (simp add: strptime_year_def good_date_fields bad_date_fields days_in_month_def
                is_leap_def) (simp add: ascii_def)

section \<open>Microblog source: the claims\<close>

text \<open>
  C1. A line whose date is empty or missing is skipped by \<open>process_weibo_jsonl\<close>
  of both files. A line whose date \<open>strptime\<close> refuses is skipped only by the one
  of \<open>statistics_only_weibo.py\<close>, which catches every exception; in \<open>statistics.py\<close>
  only \<open>JSONDecodeError\<close> is caught, so the error of \<open>strptime\<close> (a \<open>ValueError\<close>
  or a \<open>TypeError\<close>) leaves the function: the pass over the lines returns this
  error and no table, whatever lines follow, also after lines that were counted.
  The date \<open>2025/07/01 12:28:00\<close> is such a date.
\<close>

theorem C1_bad_date_aborts_basic_pass:
  "(map_of kv (ascii ''created_at'') = Some d \<and> py_truthy d \<and> strptime_year d = Inl e \<longrightarrow>
      process_weibo_jsonl (Decoded (JObj kv) # ls) = Inl e
      \<and> (\<forall>pre t. process_weibo_jsonl pre = Inr t \<longrightarrow>
            process_weibo_jsonl (pre @ Decoded (JObj kv) # ls) = Inl e)
      \<and> process_weibo_jsonl_ext (Decoded (JObj kv) # ls) = process_weibo_jsonl_ext ls
      \<and> fst (weibo_ext_try_body (Decoded (JObj kv)) s) = s)
   \<and> (map_of kv (ascii ''created_at'') = None
        \<or> (\<exists>d. map_of kv (ascii ''created_at'') = Some d \<and> \<not> py_truthy d) \<longrightarrow>
      process_weibo_jsonl (Decoded (JObj kv) # ls) = process_weibo_jsonl ls
      \<and> process_weibo_jsonl_ext (Decoded (JObj kv) # ls) = process_weibo_jsonl_ext ls
      \<and> fst (weibo_ext_try_body (Decoded (JObj kv)) s) = s
      \<and> weibo_try_body (Decoded (JObj kv)) c = Inr c)
   \<and> strptime_year (JStr (ascii ''2025/07/01 12:28:00'')) = Inl ValueError
   \<and> process_weibo_jsonl
        [Decoded (JObj [(ascii ''created_at'', JStr (ascii ''2025-07-01 12:28:00''))]),
         Decoded (JObj [(ascii ''created_at'', JStr (ascii ''2025/07/01 12:28:00''))]),
         Decoded (JObj [(ascii ''created_at'', JStr (ascii ''2025-07-01 12:28:00''))])]
       = Inl ValueError"
proof -
  let ?l = "Decoded (JObj kv)"
  have a: "process_weibo_jsonl (?l # ls) = Inl e
      \<and> (\<forall>pre t. process_weibo_jsonl pre = Inr t \<longrightarrow>
            process_weibo_jsonl (pre @ ?l # ls) = Inl e)
      \<and> process_weibo_jsonl_ext (?l # ls) = process_weibo_jsonl_ext ls
      \<and> fst (weibo_ext_try_body ?l s) = s"
    if h: "map_of kv (ascii ''created_at'') = Some d" "py_truthy d" "strptime_year d = Inl e"
    for d e ls
  proof -
    from h have y: "weibo_line_year ?l = None" by (simp add: weibo_line_year_obj)
    from h have er: "weibo_line_error ?l = Some e" by (simp add: weibo_line_error_obj)
    from strptime_year_errors[OF h(3)] have ne: "e \<noteq> JSONDecodeError" by auto
    have ab: "weibo_loop (?l # ls) c = Inl e" for c
      using y er ne by (rule weibo_loop_abort)
    have "process_weibo_jsonl (pre @ ?l # ls) = Inl e"
      if "process_weibo_jsonl pre = Inr t" for pre t
      using that ab[of t] by (simp add: process_weibo_jsonl_def weibo_loop_append)
    moreover have "process_weibo_jsonl (?l # ls) = Inl e"
      using ab[of "[]"] by (simp add: process_weibo_jsonl_def)
    moreover have "process_weibo_jsonl_ext (?l # ls) = process_weibo_jsonl_ext ls"
      using y by (simp add: process_weibo_jsonl_ext_def weibo_ext_try_body_eq)
    moreover have "fst (weibo_ext_try_body ?l s) = s"
      using y by (simp add: weibo_ext_try_body_eq)
    ultimately show ?thesis by blast
  qed
  have b: "process_weibo_jsonl (?l # ls) = process_weibo_jsonl ls
      \<and> process_weibo_jsonl_ext (?l # ls) = process_weibo_jsonl_ext ls
      \<and> fst (weibo_ext_try_body ?l s) = s
      \<and> weibo_try_body ?l c = Inr c"
    if h: "map_of kv (ascii ''created_at'') = None
        \<or> (\<exists>d. map_of kv (ascii ''created_at'') = Some d \<and> \<not> py_truthy d)"
  proof -
    from h have y: "weibo_line_year ?l = None" by (auto simp: weibo_line_year_obj)
    from h have er: "weibo_line_error ?l = None" by (auto simp: weibo_line_error_obj)
    have "process_weibo_jsonl (?l # ls) = process_weibo_jsonl ls"
      using y er by (simp add: process_weibo_jsonl_def weibo_try_body_eq)
    moreover have "process_weibo_jsonl_ext (?l # ls) = process_weibo_jsonl_ext ls"
      using y by (simp add: process_weibo_jsonl_ext_def weibo_ext_try_body_eq)
    moreover have "fst (weibo_ext_try_body ?l s) = s"
      using y by (simp add: weibo_ext_try_body_eq)
    moreover have "weibo_try_body ?l c = Inr c"
      using y er by (simp add: weibo_try_body_eq)
    ultimately show ?thesis by blast
  qed
  let ?good = "Decoded (JObj [(ascii ''created_at'', JStr (ascii ''2025-07-01 12:28:00''))])"
  let ?bad = "Decoded (JObj [(ascii ''created_at'', JStr (ascii ''2025/07/01 12:28:00''))])"
  have yg: "weibo_line_year ?good = Some 2025"
    using date_examples by (simp add: weibo_line_year_obj)
  have yb: "weibo_line_year ?bad = None" "weibo_line_error ?bad = Some ValueError"
    using date_examples by (simp_all add: weibo_line_year_obj weibo_line_error_obj)
  have c: "process_weibo_jsonl [?good, ?bad, ?good] = Inl ValueError"
    by (simp add: process_weibo_jsonl_def weibo_try_body_eq yg yb)
  from a b c date_examples show ?thesis by blast
qed

theorem C1_bad_date_aborts_basic_pass_witness:
  "map_of [(ascii ''created_at'', JInt 20250701)] (ascii ''created_at'') = Some (JInt 20250701)
   \<and> py_truthy (JInt 20250701) \<and> strptime_year (JInt 20250701) = Inl TypeError
   \<and> process_weibo_jsonl
        [Decoded (JObj [(ascii ''created_at'', JInt 20250701)]), Malformed] = Inl TypeError
   \<and> process_weibo_jsonl [Malformed] = Inr []
   \<and> process_weibo_jsonl
        ([Malformed] @ [Decoded (JObj [(ascii ''created_at'', JInt 20250701)]), Malformed])
       = Inl TypeError
   \<and> process_weibo_jsonl_ext
        [Decoded (JObj [(ascii ''created_at'', JInt 20250701)]), Malformed]
       = process_weibo_jsonl_ext [Malformed]
   \<and> map_of [(ascii ''created_at'', JStr [])] (ascii ''created_at'') = Some (JStr [])
   \<and> \<not> py_truthy (JStr [])
   \<and> process_weibo_jsonl [Decoded (JObj [(ascii ''created_at'', JStr [])]), Malformed]
       = process_weibo_jsonl [Malformed]
   \<and> weibo_try_body (Decoded (JObj [(ascii ''created_at'', JStr [])])) [(2025, 3)]
       = Inr [(2025, 3)]"
proof -
  have h1: "map_of [(ascii ''created_at'', JInt 20250701)] (ascii ''created_at'')
            = Some (JInt 20250701)" "py_truthy (JInt 20250701)"
    "strptime_year (JInt 20250701) = Inl TypeError"
    using date_examples by simp_all
  have h2: "map_of [(ascii ''created_at'', JStr [])] (ascii ''created_at'') = Some (JStr [])"
    "\<not> py_truthy (JStr [])" by simp_all
  have h3: "process_weibo_jsonl [Malformed] = Inr []"
    by (simp add: process_weibo_jsonl_def weibo_try_body_def)
  note t1 = C1_bad_date_aborts_basic_pass
    [where kv = "[(ascii ''created_at'', JInt 20250701)]" and d = "JInt 20250701"
       and e = TypeError and ls = "[Malformed]" and s = "[]" and c = "[]"]
  note t2 = C1_bad_date_aborts_basic_pass
    [where kv = "[(ascii ''created_at'', JStr [])]" and d = "JStr []"
       and e = TypeError and ls = "[Malformed]" and s = "[]" and c = "[(2025, 3)]"]
  have r1: "process_weibo_jsonl
        [Decoded (JObj [(ascii ''created_at'', JInt 20250701)]), Malformed] = Inl TypeError"
    using t1 h1 by blast
  have r2: "process_weibo_jsonl
        ([Malformed] @ [Decoded (JObj [(ascii ''created_at'', JInt 20250701)]), Malformed])
       = Inl TypeError"
    using t1 h1 h3 by blast
  have r3: "process_weibo_jsonl_ext
        [Decoded (JObj [(ascii ''created_at'', JInt 20250701)]), Malformed]
       = process_weibo_jsonl_ext [Malformed]"
    using t1 h1 by blast
  have r4: "process_weibo_jsonl [Decoded (JObj [(ascii ''created_at'', JStr [])]), Malformed]
       = process_weibo_jsonl [Malformed]"
    using t2 h2 by blast
  have r5: "weibo_try_body (Decoded (JObj [(ascii ''created_at'', JStr [])])) [(2025, 3)]
       = Inr [(2025, 3)]"
    using t2 h2 by blast
  from h1 h2 h3 r1 r2 r3 r4 r5 show ?thesis by blast
qed



section \<open>Aggregation as a fold\<close>

lemma dict_modify_comp:
  "dict_modify k f (dict_modify k g d) = dict_modify k (\<lambda>v. f (g v)) d"
  unfolding dict_modify_def by (induction d) auto

lemma map_of_agg_step:
  "map_of (agg_step add init c s) y =
     (if y = fst c then Some (add (case map_of s y of None \<Rightarrow> init | Some e \<Rightarrow> e) (snd c))
      else map_of s y)"
  by (simp add: agg_step_def map_of_dict_modify map_of_dict_setdefault split: option.splits)

lemma keys_agg_step: "fst ` set (agg_step add init c s) = insert (fst c) (fst ` set s)"
  by (simp add: agg_step_def keys_dict_modify keys_dict_setdefault)

lemma distinct_agg_step:
  "distinct (map fst s) \<Longrightarrow> distinct (map fst (agg_step add init c s))"
  by (simp add: agg_step_def map_fst_dict_modify distinct_dict_setdefault)

lemma keys_agg_fold:
  "fst ` set (fold (agg_step add init) cs s) = fst ` set s \<union> fst ` set cs"
proof (induction cs arbitrary: s)
  case Nil
  then show ?case by simp
next
  case (Cons c cs)
  have "fst ` set (fold (agg_step add init) (c # cs) s)
        = fst ` set (agg_step add init c s) \<union> fst ` set cs"
    using Cons.IH[of "agg_step add init c s"] by simp
  also have "\<dots> = fst ` set s \<union> fst ` set (c # cs)"
    by (simp add: keys_agg_step)
  finally show ?case .
qed

lemma distinct_agg_fold:
  "distinct (map fst s) \<Longrightarrow> distinct (map fst (fold (agg_step add init) cs s))"
proof (induction cs arbitrary: s)
  case Nil
  then show ?case by simp
next
  case (Cons c cs)
  from Cons.IH[OF distinct_agg_step[OF Cons.prems, of add init c]] show ?case by simp
qed

lemma map_of_agg_fold:
  "map_of (fold (agg_step add init) cs s) y =
     (if amounts_of y cs = [] then map_of s y
      else Some (foldl add (case map_of s y of None \<Rightarrow> init | Some e \<Rightarrow> e) (amounts_of y cs)))"
proof (induction cs arbitrary: s)
  case Nil
  then show ?case by (simp add: amounts_of_def)
next
  case (Cons c cs)
  let ?s1 = "agg_step add init c s"
  have step: "map_of (fold (agg_step add init) (c # cs) s) y =
     (if amounts_of y cs = [] then map_of ?s1 y
      else Some (foldl add (case map_of ?s1 y of None \<Rightarrow> init | Some e \<Rightarrow> e)
                  (amounts_of y cs)))"
    using Cons.IH[of ?s1] by simp
  show ?case
  proof (cases "fst c = y")
    case True
    then have a: "amounts_of y (c # cs) = snd c # amounts_of y cs"
      by (simp add: amounts_of_def)
    have m: "map_of ?s1 y
             = Some (add (case map_of s y of None \<Rightarrow> init | Some e \<Rightarrow> e) (snd c))"
      using True by (simp add: map_of_agg_step)
    show ?thesis unfolding step a m by simp
  next
    case False
    then have a: "amounts_of y (c # cs) = amounts_of y cs"
      by (simp add: amounts_of_def)
    have m: "map_of ?s1 y = map_of s y"
      using False by (auto simp: map_of_agg_step)
    show ?thesis unfolding step a m by simp
  qed
qed

lemma mset_amounts_of:
  "mset cs = mset cs' \<Longrightarrow> mset (amounts_of y cs) = mset (amounts_of y cs')"
  by (simp add: amounts_of_def)

lemma foldl_mset_cong:
  assumes comm: "\<And>e d1 d2. add (add e d1) d2 = add (add e d2) d1"
    and m: "mset ds = mset ds'"
  shows "foldl add e ds = foldl add e ds'"
proof -
  have "fold (\<lambda>d e. add e d) ds = fold (\<lambda>d e. add e d) ds'"
    using m by (rule fold_multiset_equiv[rotated]) (auto simp: comm fun_eq_iff)
  then show ?thesis by (simp add: foldl_conv_fold)
qed

lemma map_of_agg_fold_mset:
  assumes m: "mset cs = mset cs'"
    and comm: "\<And>e d1 d2. add (add e d1) d2 = add (add e d2) d1"
  shows "map_of (fold (agg_step add init) cs s) = map_of (fold (agg_step add init) cs' s)"
proof
  fix y
  from m have a: "mset (amounts_of y cs) = mset (amounts_of y cs')" by (rule mset_amounts_of)
  then have e: "amounts_of y cs = [] \<longleftrightarrow> amounts_of y cs' = []"
    by (metis mset_zero_iff)
  have f: "foldl add b (amounts_of y cs) = foldl add b (amounts_of y cs')" for b
    using comm a by (rule foldl_mset_cong)
  show "map_of (fold (agg_step add init) cs s) y = map_of (fold (agg_step add init) cs' s) y"
    by (simp add: map_of_agg_fold e f)
qed

lemma sum_dict_modify:
  fixes m :: "'e \<Rightarrow> int"
  assumes "distinct (map fst d)" "map_of d k = Some v"
  shows "sum_list (map (\<lambda>p. m (snd p)) (dict_modify k f d))
         = sum_list (map (\<lambda>p. m (snd p)) d) - m v + m (f v)"
  using assms
proof (induction d)
  case Nil
  then show ?case by simp
next
  case (Cons p d)
  obtain k' v' where p: "p = (k', v')" by (cases p)
  show ?case
  proof (cases "k' = k")
    case True
    with Cons.prems p have v: "v' = v" and nk: "k \<notin> set (map fst d)" by auto
    from nk have "dict_modify k f d = d" by (rule sum_dict_modify_absent)
    then have "dict_modify k f (p # d) = (k, f v) # d"
      using p True v by (simp add: dict_modify_def)
    then show ?thesis using p True v by simp
  next
    case False
    with Cons.prems p have "distinct (map fst d)" "map_of d k = Some v" by auto
    from Cons.IH[OF this] have
      "sum_list (map (\<lambda>p. m (snd p)) (dict_modify k f d))
       = sum_list (map (\<lambda>p. m (snd p)) d) - m v + m (f v)" .
    moreover have "dict_modify k f (p # d) = p # dict_modify k f d"
      using p False by (simp add: dict_modify_def)
    ultimately show ?thesis by simp
  qed
qed

lemma sum_agg_step:
  fixes m :: "'e \<Rightarrow> int"
  assumes d: "distinct (map fst s)" and m0: "m init = 0"
    and ma: "\<And>e. m (add e (snd c)) = m e + w"
  shows "sum_list (map (\<lambda>p. m (snd p)) (agg_step add init c s))
         = sum_list (map (\<lambda>p. m (snd p)) s) + w"
proof -
  let ?s0 = "dict_setdefault (fst c) init s"
  have d0: "distinct (map fst ?s0)" using d by (rule distinct_dict_setdefault)
  have "fst c \<in> fst ` set ?s0" by (simp add: keys_dict_setdefault)
  then obtain v where v: "map_of ?s0 (fst c) = Some v"
    by (metis domD dom_map_of_conv_image_fst)
  have s0: "sum_list (map (\<lambda>p. m (snd p)) ?s0) = sum_list (map (\<lambda>p. m (snd p)) s)"
    using m0 by (simp add: dict_setdefault_def)
  have "sum_list (map (\<lambda>p. m (snd p)) (agg_step add init c s))
        = sum_list (map (\<lambda>p. m (snd p)) ?s0) - m v + m (add v (snd c))"
    unfolding agg_step_def by (rule sum_dict_modify[OF d0 v])
  with s0 ma[of v] show ?thesis by simp
qed

lemma sum_agg_fold:
  fixes m :: "'e \<Rightarrow> int"
  assumes m0: "m init = 0" and ma: "\<And>e d. m (add e d) = m e + w d"
  shows "distinct (map fst s) \<Longrightarrow>
         sum_list (map (\<lambda>p. m (snd p)) (fold (agg_step add init) cs s))
         = sum_list (map (\<lambda>p. m (snd p)) s) + sum_list (map (\<lambda>c. w (snd c)) cs)"
proof (induction cs arbitrary: s)
  case Nil
  then show ?case by simp
next
  case (Cons c cs)
  let ?s1 = "agg_step add init c s"
  have d1: "distinct (map fst ?s1)" using Cons.prems by (rule distinct_agg_step)
  have "sum_list (map (\<lambda>p. m (snd p)) ?s1)
        = sum_list (map (\<lambda>p. m (snd p)) s) + w (snd c)"
    using Cons.prems m0 ma by (rule sum_agg_step)
  with Cons.IH[OF d1] show ?case by simp
qed

lemma foldl_measure:
  fixes m :: "'e \<Rightarrow> int"
  assumes ma: "\<And>e d. m (add e d) = m e + w d"
  shows "m (foldl add e ds) = m e + sum_list (map w ds)"
  by (induction ds arbitrary: e) (simp_all add: ma)

section \<open>The three loops as folds\<close>

lemma mset_map_filter:
  "mset xs = mset ys \<Longrightarrow> mset (List.map_filter f xs) = mset (List.map_filter f ys)"
  by (simp add: List.map_filter_def)

lemma length_map_filter:
  "length (List.map_filter f xs) = length (filter (\<lambda>x. f x \<noteq> None) xs)"
  by (simp add: List.map_filter_def)

subsection \<open>Video source\<close>

lemma add_video_comm: "add_video (add_video e d1) d2 = add_video (add_video e d2) d1"
  by (simp add: add_video_def)

lemma video_update_agg:
  "video_update y a b c d s =
     agg_step add_video new_video_entry
       (y, \<lparr>post_count = 1, total_likes = a, total_collections = b, total_comments = c,
            total_shares = d\<rparr>) s"
proof -
  have "(\<lambda>v. v\<lparr>post_count := post_count v + 1, total_likes := total_likes v + a,
               total_collections := total_collections v + b,
               total_comments := total_comments v + c,
               total_shares := total_shares v + d\<rparr>)
        = (\<lambda>e. add_video e \<lparr>post_count = 1, total_likes = a, total_collections = b,
                               total_comments = c, total_shares = d\<rparr>)"
    by (rule ext) (simp add: add_video_def)
  then show ?thesis
    by (simp add: video_update_def agg_step_def dict_modify_comp)
qed

lemma process_item_delta:
  "process_item lt item s =
     ebind (item_delta lt item) (\<lambda>c. Inr (agg_step add_video new_video_entry c s))"
  by (simp add: process_item_eq item_delta_def ebind_def video_update_agg split: sum.splits)

lemma delta_of_Inr: "item_delta lt item = Inr c \<Longrightarrow> delta_of lt item = c"
  by (simp add: delta_of_def)

lemma item_delta_year:
  "item_delta lt item = Inr c \<Longrightarrow> item_year lt item = Inr (fst c) \<and> post_count (snd c) = 1"
  by (auto simp: item_delta_def ebind_def split: sum.splits)

lemma item_delta_Inl_year:
  "item_delta lt item = Inl e \<Longrightarrow> process_item lt item s = Inl e"
  by (simp add: process_item_delta ebind_def)

lemma process_data_loop_fold:
  "\<forall>i \<in> set items. \<exists>c. item_delta lt i = Inr c \<Longrightarrow>
   process_data_loop lt items s
     = Inr (fold (agg_step add_video new_video_entry) (map (delta_of lt) items) s)"
proof (induction items arbitrary: s)
  case Nil
  then show ?case by simp
next
  case (Cons i items)
  from Cons.prems obtain c where c: "item_delta lt i = Inr c" by auto
  from Cons.prems have tl: "\<forall>i \<in> set items. \<exists>c. item_delta lt i = Inr c" by simp
  have "process_item lt i s = Inr (agg_step add_video new_video_entry c s)"
    using c by (simp add: process_item_delta ebind_def)
  with Cons.IH[OF tl, of "agg_step add_video new_video_entry c s"] delta_of_Inr[OF c]
  show ?case by simp
qed

lemma process_data_loop_Inr_D:
  assumes "process_data_loop lt items s = Inr t"
  shows "\<forall>i \<in> set items. \<exists>c. item_delta lt i = Inr c"
proof
  fix i assume i: "i \<in> set items"
  show "\<exists>c. item_delta lt i = Inr c"
  proof (cases "item_delta lt i")
    case (Inl e)
    from process_data_loop_abort[OF i item_delta_Inl_year[OF Inl, of s], of s] assms
    show ?thesis by simp
  next
    case (Inr c)
    then show ?thesis by blast
  qed
qed

lemma process_data_JArr:
  "process_data lt (JArr items) = process_data_loop lt items []"
  by (simp add: process_data_def py_iter_def ebind_def)

subsection \<open>Microblog source, \<open>statistics.py\<close>\<close>

lemma weibo_step_agg:
  "dict_modify y (\<lambda>n. n + 1) (dict_setdefault y 0 s) = agg_step (+) (0::int) (y, 1) s"
  by (simp add: agg_step_def)

lemma weibo_year_no_error: "weibo_line_year l = Some y \<Longrightarrow> weibo_line_error l = None"
  by (auto simp: weibo_line_year_def weibo_line_error_def
           split: line.splits sum.splits if_splits)

lemma weibo_try_body_cases:
  "weibo_try_body l s =
     (if weibo_line_raises l then Inl (the (weibo_line_error l))
      else case weibo_line_year l of
             Some y \<Rightarrow> Inr (agg_step (+) 0 (y, 1) s)
           | None \<Rightarrow> if weibo_line_error l = None then Inr s else Inl JSONDecodeError)"
proof (cases "weibo_line_year l")
  case None
  then show ?thesis
    by (cases "weibo_line_error l")
       (simp_all add: weibo_try_body_eq weibo_line_raises_def)
next
  case (Some y)
  from weibo_year_no_error[OF Some] Some show ?thesis
    by (simp add: weibo_try_body_eq weibo_line_raises_def weibo_step_agg)
qed

lemma weibo_years_Cons:
  "weibo_years (l # ls) =
     (case weibo_line_year l of None \<Rightarrow> weibo_years ls | Some y \<Rightarrow> y # weibo_years ls)"
  by (simp add: weibo_years_def List.map_filter_def split: option.splits)

lemma weibo_loop_fold:
  "\<forall>l \<in> set ls. \<not> weibo_line_raises l \<Longrightarrow>
   weibo_loop ls s = Inr (fold (agg_step (+) 0) (map (\<lambda>y. (y, 1)) (weibo_years ls)) s)"
proof (induction ls arbitrary: s)
  case Nil
  then show ?case by (simp add: weibo_years_def List.map_filter_def)
next
  case (Cons l ls)
  from Cons.prems have nr: "\<not> weibo_line_raises l"
    and tl: "\<forall>l \<in> set ls. \<not> weibo_line_raises l" by simp_all
  show ?case
  proof (cases "weibo_line_year l")
    case None
    then have "weibo_loop (l # ls) s = weibo_loop ls s"
      using nr by (simp add: weibo_try_body_cases)
    with Cons.IH[OF tl, of s] None show ?thesis by (simp add: weibo_years_Cons)
  next
    case (Some y)
    then have "weibo_loop (l # ls) s = weibo_loop ls (agg_step (+) 0 (y, 1) s)"
      using nr by (simp add: weibo_try_body_cases)
    with Cons.IH[OF tl, of "agg_step (+) 0 (y, 1) s"] Some show ?thesis
      by (simp add: weibo_years_Cons)
  qed
qed

lemma weibo_loop_raises:
  "\<exists>l \<in> set ls. weibo_line_raises l \<Longrightarrow> \<exists>e. weibo_loop ls s = Inl e \<and> e \<noteq> JSONDecodeError"
proof (induction ls arbitrary: s)
  case Nil
  then show ?case by simp
next
  case (Cons l ls)
  show ?case
  proof (cases "weibo_line_raises l")
    case True
    then obtain e where e: "weibo_line_error l = Some e" "e \<noteq> JSONDecodeError"
      by (auto simp: weibo_line_raises_def split: option.splits)
    with True show ?thesis by (simp add: weibo_try_body_cases)
  next
    case False
    with Cons.prems have tl: "\<exists>l \<in> set ls. weibo_line_raises l" by simp
    show ?thesis
    proof (cases "weibo_line_year l")
      case None
      then have "weibo_loop (l # ls) s = weibo_loop ls s"
        using False by (simp add: weibo_try_body_cases)
      with Cons.IH[OF tl, of s] show ?thesis by simp
    next
      case (Some y)
      then have "weibo_loop (l # ls) s = weibo_loop ls (agg_step (+) 0 (y, 1) s)"
        using False by (simp add: weibo_try_body_cases)
      with Cons.IH[OF tl, of "agg_step (+) 0 (y, 1) s"] show ?thesis by simp
    qed
  qed
qed

lemma weibo_loop_Inr_D:
  assumes "weibo_loop ls s = Inr t"
  shows "\<forall>l \<in> set ls. \<not> weibo_line_raises l"
proof (rule ccontr)
  assume "\<not> (\<forall>l \<in> set ls. \<not> weibo_line_raises l)"
  then have "\<exists>l \<in> set ls. weibo_line_raises l" by simp
  from weibo_loop_raises[OF this, of s] assms show False by simp
qed

subsection \<open>Microblog source, \<open>statistics_only_weibo.py\<close>\<close>

lemma add_weibo_comm: "add_weibo (add_weibo e d1) d2 = add_weibo (add_weibo e d2) d1"
  by (simp add: add_weibo_def)

lemma weibo_update_agg:
  "weibo_update y r s =
     agg_step add_weibo new_weibo_entry (y, \<lparr>weibo_post_count = 1, weibo_reads_count = r\<rparr>) s"
proof -
  have "(\<lambda>v. v\<lparr>weibo_post_count := weibo_post_count v + 1,
               weibo_reads_count := weibo_reads_count v + r\<rparr>)
        = (\<lambda>e. add_weibo e \<lparr>weibo_post_count = 1, weibo_reads_count = r\<rparr>)"
    by (rule ext) (simp add: add_weibo_def)
  then show ?thesis
    by (simp add: weibo_update_def agg_step_def dict_modify_comp)
qed

lemma weibo_ext_loop_fold:
  "weibo_ext_loop ls s
     = fold (agg_step add_weibo new_weibo_entry) (List.map_filter weibo_delta ls) s"
proof (induction ls arbitrary: s)
  case Nil
  then show ?case by (simp add: List.map_filter_def)
next
  case (Cons l ls)
  show ?case
  proof (cases "weibo_line_year l")
    case None
    then show ?thesis
      using Cons.IH[of s]
      by (simp add: weibo_ext_try_body_eq weibo_delta_def List.map_filter_def)
  next
    case (Some y)
    then show ?thesis
      using Cons.IH[of "weibo_update y (weibo_line_reads l) s"]
      by (simp add: weibo_ext_try_body_eq weibo_delta_def List.map_filter_def weibo_update_agg)
  qed
qed

lemma weibo_delta_None: "weibo_delta l = None \<longleftrightarrow> weibo_line_year l = None"
  by (simp add: weibo_delta_def)

section \<open>Sums of post counts and the order of the records\<close>

lemma sum_list_const_one:
  "\<forall>x \<in> set xs. f x = (1::int) \<Longrightarrow> sum_list (map f xs) = int (length xs)"
  by (induction xs) simp_all

lemma video_table:
  assumes "process_data lt (JArr items) = Inr t"
  shows "t = fold (agg_step add_video new_video_entry) (map (delta_of lt) items) []"
    and "\<forall>i \<in> set items. \<exists>c. item_delta lt i = Inr c"
proof -
  from assms have l: "process_data_loop lt items [] = Inr t" by (simp add: process_data_JArr)
  from process_data_loop_Inr_D[OF l]
  show a: "\<forall>i \<in> set items. \<exists>c. item_delta lt i = Inr c" .
  from process_data_loop_fold[OF a, of "[]"] l
  show "t = fold (agg_step add_video new_video_entry) (map (delta_of lt) items) []" by simp
qed

lemma delta_of_props:
  assumes "\<exists>c. item_delta lt i = Inr c"
  shows "item_year lt i = Inr (fst (delta_of lt i))" "post_count (snd (delta_of lt i)) = 1"
proof -
  from assms obtain c where c: "item_delta lt i = Inr c" by blast
  from item_delta_year[OF c] delta_of_Inr[OF c]
  show "item_year lt i = Inr (fst (delta_of lt i))" "post_count (snd (delta_of lt i)) = 1"
    by simp_all
qed

lemma video_table_sum:
  assumes "process_data lt (JArr items) = Inr t"
  shows "sum_list (map (\<lambda>p. post_count (snd p)) t) = int (length items)"
    and "distinct (map fst t)"
proof -
  note t = video_table[OF assms]
  let ?cs = "map (delta_of lt) items"
  have one: "\<forall>c \<in> set ?cs. post_count (snd c) = 1"
  proof
    fix c assume "c \<in> set ?cs"
    then obtain i where i: "i \<in> set items" "c = delta_of lt i" by auto
    with t(2) delta_of_props(2)[of lt i] show "post_count (snd c) = 1" by simp
  qed
  have "sum_list (map (\<lambda>p. post_count (snd p)) (fold (agg_step add_video new_video_entry) ?cs []))
        = sum_list (map (\<lambda>c. post_count (snd c)) ?cs)"
    using sum_agg_fold[of post_count new_video_entry add_video post_count "[]" ?cs]
    by (simp add: new_video_entry_def add_video_def)
  also have "\<dots> = int (length ?cs)"
    using sum_list_const_one[OF one] by simp
  finally show "sum_list (map (\<lambda>p. post_count (snd p)) t) = int (length items)"
    using t(1) by simp
  show "distinct (map fst t)"
    unfolding t(1) by (rule distinct_agg_fold) simp
qed

lemma video_table_keys:
  assumes "process_data lt (JArr items) = Inr t"
  shows "fst ` set t = {y. \<exists>item \<in> set items. item_year lt item = Inr y}"
proof -
  note t = video_table[OF assms]
  have "fst ` set t = fst ` delta_of lt ` set items"
    unfolding t(1) by (simp add: keys_agg_fold)
  also have "\<dots> = {y. \<exists>item \<in> set items. item_year lt item = Inr y}"
  proof (intro set_eqI iffI)
    fix y assume "y \<in> fst ` delta_of lt ` set items"
    then obtain i where i: "i \<in> set items" "y = fst (delta_of lt i)" by auto
    with t(2) delta_of_props(1)[of lt i] have "item_year lt i = Inr y" by simp
    with i show "y \<in> {y. \<exists>item \<in> set items. item_year lt item = Inr y}" by blast
  next
    fix y assume "y \<in> {y. \<exists>item \<in> set items. item_year lt item = Inr y}"
    then obtain i where i: "i \<in> set items" "item_year lt i = Inr y" by blast
    with t(2) delta_of_props(1)[of lt i] have "fst (delta_of lt i) = y" by simp
    with i show "y \<in> fst ` delta_of lt ` set items" by force
  qed
  finally show ?thesis .
qed

lemma video_table_count:
  assumes "process_data lt (JArr items) = Inr t" "map_of t y = Some e"
  shows "post_count e = int (length (filter (\<lambda>i. item_year lt i = Inr y) items))"
    and "1 \<le> post_count e"
proof -
  note t = video_table[OF assms(1)]
  let ?cs = "map (delta_of lt) items"
  let ?ds = "amounts_of y ?cs"
  from assms(2) have m: "map_of (fold (agg_step add_video new_video_entry) ?cs []) y = Some e"
    unfolding t(1)[symmetric] .
  have ne: "?ds \<noteq> []" using m by (auto simp: map_of_agg_fold split: if_splits)
  with m have e: "e = foldl add_video new_video_entry ?ds"
    by (simp add: map_of_agg_fold)
  have "post_count (foldl add_video new_video_entry ?ds)
        = post_count new_video_entry + sum_list (map post_count ?ds)"
    by (rule foldl_measure) (simp add: add_video_def)
  moreover have "\<forall>d \<in> set ?ds. post_count d = 1"
  proof
    fix d assume "d \<in> set ?ds"
    then obtain i where i: "i \<in> set items" "d = snd (delta_of lt i)"
      by (auto simp: amounts_of_def)
    with t(2) delta_of_props(2)[of lt i] show "post_count d = 1" by simp
  qed
  ultimately have pc: "post_count e = int (length ?ds)"
    using e sum_list_const_one[of ?ds post_count] by (simp add: new_video_entry_def)
  have "filter (\<lambda>i. fst (delta_of lt i) = y) items = filter (\<lambda>i. item_year lt i = Inr y) items"
    using t(2) delta_of_props(1) by (intro filter_cong) auto
  then have "length ?ds = length (filter (\<lambda>i. item_year lt i = Inr y) items)"
    by (simp add: amounts_of_def filter_map comp_def)
  with pc show "post_count e = int (length (filter (\<lambda>i. item_year lt i = Inr y) items))"
    by simp
  from ne pc show "1 \<le> post_count e" by (cases ?ds) simp_all
qed

lemma weibo_ext_table_sum:
  "sum_list (map (\<lambda>p. weibo_post_count (snd p)) (process_weibo_jsonl_ext ls))
     = int (length (filter (\<lambda>l. weibo_line_year l \<noteq> None) ls))"
  "distinct (map fst (process_weibo_jsonl_ext ls))"
proof -
  let ?cs = "List.map_filter weibo_delta ls"
  have one: "\<forall>c \<in> set ?cs. weibo_post_count (snd c) = 1"
    by (auto simp: List.map_filter_def weibo_delta_def)
  have "sum_list (map (\<lambda>p. weibo_post_count (snd p))
          (fold (agg_step add_weibo new_weibo_entry) ?cs []))
        = sum_list (map (\<lambda>c. weibo_post_count (snd c)) ?cs)"
    using sum_agg_fold[of weibo_post_count new_weibo_entry add_weibo weibo_post_count "[]" ?cs]
    by (simp add: new_weibo_entry_def add_weibo_def)
  also have "\<dots> = int (length ?cs)"
    using sum_list_const_one[OF one] by simp
  also have "\<dots> = int (length (filter (\<lambda>l. weibo_line_year l \<noteq> None) ls))"
    by (simp add: length_map_filter weibo_delta_None)
  finally show "sum_list (map (\<lambda>p. weibo_post_count (snd p)) (process_weibo_jsonl_ext ls))
     = int (length (filter (\<lambda>l. weibo_line_year l \<noteq> None) ls))"
    by (simp add: process_weibo_jsonl_ext_def weibo_ext_loop_fold)
  show "distinct (map fst (process_weibo_jsonl_ext ls))"
    unfolding process_weibo_jsonl_ext_def weibo_ext_loop_fold
    by (rule distinct_agg_fold) simp
qed

lemma weibo_table:
  assumes "process_weibo_jsonl ls = Inr c"
  shows "c = fold (agg_step (+) 0) (map (\<lambda>y. (y, 1)) (weibo_years ls)) []"
    and "\<forall>l \<in> set ls. \<not> weibo_line_raises l"
proof -
  from assms have l: "weibo_loop ls [] = Inr c" by (simp add: process_weibo_jsonl_def)
  from weibo_loop_Inr_D[OF l] show a: "\<forall>l \<in> set ls. \<not> weibo_line_raises l" .
  from weibo_loop_fold[OF a, of "[]"] l
  show "c = fold (agg_step (+) 0) (map (\<lambda>y. (y, 1)) (weibo_years ls)) []" by simp
qed

lemma weibo_table_sum:
  assumes "process_weibo_jsonl ls = Inr c"
  shows "sum_list (map snd c) = int (length (filter (\<lambda>l. weibo_line_year l \<noteq> None) ls))"
    and "distinct (map fst c)"
proof -
  note t = weibo_table[OF assms]
  let ?cs = "map (\<lambda>y. (y, 1::int)) (weibo_years ls)"
  have "sum_list (map (\<lambda>p. id (snd p)) (fold (agg_step (+) 0) ?cs []))
        = sum_list (map (\<lambda>c. id (snd c)) ?cs)"
    using sum_agg_fold[of id "0::int" "(+)" id "[]" ?cs] by simp
  also have "\<dots> = int (length (weibo_years ls))"
    by (simp add: comp_def sum_list_const_one)
  also have "\<dots> = int (length (filter (\<lambda>l. weibo_line_year l \<noteq> None) ls))"
    by (simp add: weibo_years_def length_map_filter)
  finally show "sum_list (map snd c) = int (length (filter (\<lambda>l. weibo_line_year l \<noteq> None) ls))"
    using t(1) by simp
  show "distinct (map fst c)"
    unfolding t(1) by (rule distinct_agg_fold) simp
qed

lemma video_permuted:
  assumes m: "mset items' = mset items" and r: "process_data lt (JArr items) = Inr t"
  shows "\<exists>t'. process_data lt (JArr items') = Inr t' \<and> map_of t' = map_of t
              \<and> distinct (map fst t') \<and> distinct (map fst t)"
proof -
  note t = video_table[OF r]
  from m have "set items' = set items" by (rule mset_eq_setD)
  with t(2) have a': "\<forall>i \<in> set items'. \<exists>c. item_delta lt i = Inr c" by simp
  let ?t' = "fold (agg_step add_video new_video_entry) (map (delta_of lt) items') []"
  have r': "process_data lt (JArr items') = Inr ?t'"
    using process_data_loop_fold[OF a', of "[]"] by (simp add: process_data_JArr)
  from m have "mset (map (delta_of lt) items') = mset (map (delta_of lt) items)" by simp
  then have "map_of ?t' = map_of t"
    unfolding t(1) by (rule map_of_agg_fold_mset) (rule add_video_comm)
  moreover have "distinct (map fst ?t')" by (rule distinct_agg_fold) simp
  moreover have "distinct (map fst t)" using r by (rule video_table_sum(2))
  ultimately show ?thesis using r' by blast
qed

lemma video_permuted_error:
  assumes m: "mset items' = mset items" and r: "process_data lt (JArr items) = Inl e"
  shows "\<exists>e'. process_data lt (JArr items') = Inl e'"
proof (cases "process_data lt (JArr items')")
  case (Inl e')
  then show ?thesis by blast
next
  case (Inr t')
  from video_permuted[OF m[symmetric] Inr] r show ?thesis by simp
qed

lemma weibo_permuted:
  assumes m: "mset ls' = mset ls" and r: "process_weibo_jsonl ls = Inr c"
  shows "\<exists>c'. process_weibo_jsonl ls' = Inr c' \<and> map_of c' = map_of c"
proof -
  note t = weibo_table[OF r]
  from m have "set ls' = set ls" by (rule mset_eq_setD)
  with t(2) have a': "\<forall>l \<in> set ls'. \<not> weibo_line_raises l" by simp
  let ?f = "\<lambda>ls. map (\<lambda>y. (y, 1::int)) (weibo_years ls)"
  let ?c' = "fold (agg_step (+) 0) (?f ls') []"
  have r': "process_weibo_jsonl ls' = Inr ?c'"
    using weibo_loop_fold[OF a', of "[]"] by (simp add: process_weibo_jsonl_def)
  from m have "mset (weibo_years ls') = mset (weibo_years ls)"
    unfolding weibo_years_def by (rule mset_map_filter)
  then have "mset (?f ls') = mset (?f ls)" by simp
  then have "map_of ?c' = map_of c"
    unfolding t(1) by (rule map_of_agg_fold_mset) simp
  with r' show ?thesis by blast
qed

lemma weibo_permuted_error:
  assumes m: "mset ls' = mset ls" and r: "process_weibo_jsonl ls = Inl e"
  shows "\<exists>e'. process_weibo_jsonl ls' = Inl e'"
proof (cases "process_weibo_jsonl ls'")
  case (Inl e')
  then show ?thesis by blast
next
  case (Inr c')
  from weibo_permuted[OF m[symmetric] Inr] r show ?thesis by simp
qed

lemma weibo_ext_permuted:
  assumes m: "mset ls' = mset ls"
  shows "map_of (process_weibo_jsonl_ext ls') = map_of (process_weibo_jsonl_ext ls)"
proof -
  from m have "mset (List.map_filter weibo_delta ls') = mset (List.map_filter weibo_delta ls)"
    by (rule mset_map_filter)
  then show ?thesis
    unfolding process_weibo_jsonl_ext_def weibo_ext_loop_fold
    by (rule map_of_agg_fold_mset) (rule add_weibo_comm)
qed

section \<open>CSV output of the video source\<close>

lemma video_rows_eq:
  "\<forall>y \<in> set ys. y \<in> fst ` set stats \<Longrightarrow>
   video_rows stats ys = Inr (map (\<lambda>y. video_row y (entry_of stats y)) ys)"
proof (induction ys)
  case Nil
  then show ?case by simp
next
  case (Cons y ys)
  from Cons.prems have "y \<in> fst ` set stats" by simp
  then obtain e where e: "map_of stats y = Some e"
    by (metis domD dom_map_of_conv_image_fst)
  from Cons.prems have "\<forall>y \<in> set ys. y \<in> fst ` set stats" by simp
  from Cons.IH[OF this] e show ?case
    by (simp add: ebind_def video_row_def entry_of_def)
qed

lemma save_to_csv_eq:
  "save_to_csv stats
     = Inr (video_header # map (\<lambda>y. video_row y (entry_of stats y)) (sort (map fst stats)))"
proof -
  have "\<forall>y \<in> set (sort (map fst stats)). y \<in> fst ` set stats" by simp
  from video_rows_eq[OF this] show ?thesis by (simp add: save_to_csv_def ebind_def)
qed

lemma sort_keys_cong:
  assumes "map_of t' = map_of t" "distinct (map fst t')" "distinct (map fst t)"
  shows "sort (map fst t') = sort (map fst (t :: (int \<times> 'v) list))"
proof -
  have "set (map fst t') = set (map fst t)"
    using assms(1) by (metis dom_map_of_conv_image_fst set_map)
  with assms(2,3) set_eq_iff_mset_eq_distinct[of "map fst t'" "map fst t"]
  have "mset (map fst t') = mset (map fst t)" by blast
  then have "mset (sort (map fst t)) = mset (map fst t')" by simp
  then show ?thesis by (rule properties_for_sort) simp
qed

lemma save_to_csv_cong:
  assumes "map_of t' = map_of t" "distinct (map fst t')" "distinct (map fst t)"
  shows "save_to_csv t' = save_to_csv t"
proof -
  have "entry_of t' = entry_of t" using assms(1) by (simp add: entry_of_def fun_eq_iff)
  with sort_keys_cong[OF assms] show ?thesis by (simp add: save_to_csv_eq)
qed

lemma strict_sorted_sort:
  "distinct xs \<Longrightarrow> sorted_wrt (<) (sort (xs :: int list))"
  by (simp add: strict_sorted_iff)

section \<open>Examples\<close>

lemma video_example_item:
  "process_item utc_year (JObj [(ascii ''create_time'', JInt 1609459200)]) s
     = Inr (video_update 2021 0 0 0 0 s)"
proof -
  let ?good = "JObj [(ascii ''create_time'', JInt 1609459200)]"
  have k: "ascii ''liked_count'' \<noteq> ascii ''create_time''"
    "ascii ''share_count'' \<noteq> ascii ''create_time''"
    "ascii ''collected_count'' \<noteq> ascii ''create_time''"
    "ascii ''comment_count'' \<noteq> ascii ''create_time''"
    by (simp_all add: ascii_def)
  have yg: "item_year utc_year ?good = Inr 2021"
    by (simp add: item_year_obj fromtimestamp_year_def utc_year_2021)
  have cg: "item_count ?good (ascii ''liked_count'') = Inr 0"
    "item_count ?good (ascii ''collected_count'') = Inr 0"
    "item_count ?good (ascii ''comment_count'') = Inr 0"
    "item_count ?good (ascii ''share_count'') = Inr 0"
    using k by (simp_all add: item_count_obj)
  show ?thesis using yg cg by (rule process_item_Inr)
qed

lemma video_example_item_likes:
  "process_item utc_year
     (JObj [(ascii ''create_time'', JInt 1), (ascii ''liked_count'', JInt 5)]) s
     = Inr (video_update 1970 5 0 0 0 s)"
proof -
  let ?i = "JObj [(ascii ''create_time'', JInt 1), (ascii ''liked_count'', JInt 5)]"
  have k: "ascii ''liked_count'' \<noteq> ascii ''create_time''"
    "ascii ''share_count'' \<noteq> ascii ''create_time''"
    "ascii ''collected_count'' \<noteq> ascii ''create_time''"
    "ascii ''comment_count'' \<noteq> ascii ''create_time''"
    "ascii ''share_count'' \<noteq> ascii ''liked_count''"
    "ascii ''collected_count'' \<noteq> ascii ''liked_count''"
    "ascii ''comment_count'' \<noteq> ascii ''liked_count''"
    by (simp_all add: ascii_def)
  have u: "utc_year 1 = Inr 1970" using utc_year_edges by simp
  have yg: "item_year utc_year ?i = Inr 1970"
    by (simp add: item_year_obj fromtimestamp_year_def u)
  have cg: "item_count ?i (ascii ''liked_count'') = Inr 5"
    "item_count ?i (ascii ''collected_count'') = Inr 0"
    "item_count ?i (ascii ''comment_count'') = Inr 0"
    "item_count ?i (ascii ''share_count'') = Inr 0"
    using k by (simp_all add: item_count_obj py_int_def)
  show ?thesis using yg cg by (rule process_item_Inr)
qed

lemma video_example_pass:
  "process_data utc_year (JArr
     [JObj [(ascii ''create_time'', JInt 1609459200)],
      JObj [(ascii ''create_time'', JInt 1), (ascii ''liked_count'', JInt 5)]])
   = Inr (video_update 1970 5 0 0 0 (video_update 2021 0 0 0 0 []))"
  by (simp add: process_data_JArr video_example_item video_example_item_likes)

lemma weibo_example_lines:
  "weibo_line_year (Decoded (JObj [(ascii ''created_at'', JStr (ascii ''2025-07-01 12:28:00''))]))
     = Some 2025"
  "weibo_line_year (Decoded (JObj [(ascii ''created_at'', JStr (ascii ''2025/07/01 12:28:00''))]))
     = None"
  using date_examples by (simp_all add: weibo_line_year_obj)

lemma weibo_example_Malformed:
  "weibo_line_year Malformed = None" "weibo_line_error Malformed = Some JSONDecodeError"
  by (simp_all add: weibo_line_year_def weibo_line_error_def)

lemma weibo_example_pass:
  "process_weibo_jsonl
     [Decoded (JObj [(ascii ''created_at'', JStr (ascii ''2025-07-01 12:28:00''))]), Malformed]
   = Inr [(2025, 1)]"
  by (simp add: process_weibo_jsonl_def weibo_try_body_eq weibo_example_lines
                weibo_example_Malformed dict_setdefault_def dict_modify_def)

section \<open>Yearly tables: the claims\<close>

text \<open>
  C5. The post counts of a yearly table add up to the number of records that
  gave a year. For the video source, where a record without a year aborts the
  pass: if \<open>process_data\<close> returns a table, every item gave a year, the post
  counts add up to the number of items, and the entry of each year counts the
  items of that year. For \<open>process_weibo_jsonl\<close> of \<open>statistics_only_weibo.py\<close>
  the post counts add up to the number of lines with a year, which is the number
  of lines minus the number of lines without one (malformed, without a date or
  with a date that does not parse); for the one of \<open>statistics.py\<close> the same
  holds of the table it returns, if it returns one. The keys of each table are
  distinct, so the sum over the table is the sum over its keys.
\<close>

theorem C5_post_counts_sum:
  "(process_data lt (JArr items) = Inr t \<longrightarrow>
      sum_list (map (\<lambda>p. post_count (snd p)) t) = int (length items)
      \<and> distinct (map fst t)
      \<and> (\<forall>item \<in> set items. \<exists>y. item_year lt item = Inr y)
      \<and> (\<forall>y e. map_of t y = Some e \<longrightarrow>
            post_count e = int (length (filter (\<lambda>i. item_year lt i = Inr y) items))))
   \<and> sum_list (map (\<lambda>p. weibo_post_count (snd p)) (process_weibo_jsonl_ext ls))
       = int (length (filter (\<lambda>l. weibo_line_year l \<noteq> None) ls))
   \<and> int (length (filter (\<lambda>l. weibo_line_year l \<noteq> None) ls))
       = int (length ls) - int (length (filter (\<lambda>l. weibo_line_year l = None) ls))
   \<and> distinct (map fst (process_weibo_jsonl_ext ls))
   \<and> (process_weibo_jsonl ls = Inr c \<longrightarrow>
        sum_list (map snd c) = int (length (filter (\<lambda>l. weibo_line_year l \<noteq> None) ls))
        \<and> distinct (map fst c))"
proof -
  have v: "sum_list (map (\<lambda>p. post_count (snd p)) t) = int (length items)
      \<and> distinct (map fst t)
      \<and> (\<forall>item \<in> set items. \<exists>y. item_year lt item = Inr y)
      \<and> (\<forall>y e. map_of t y = Some e \<longrightarrow>
            post_count e = int (length (filter (\<lambda>i. item_year lt i = Inr y) items)))"
    if r: "process_data lt (JArr items) = Inr t"
  proof -
    have "\<forall>item \<in> set items. \<exists>y. item_year lt item = Inr y"
      using video_table(2)[OF r] item_delta_year by blast
    with video_table_sum[OF r] video_table_count(1)[OF r] show ?thesis by blast
  qed
  have n: "int (length (filter (\<lambda>l. weibo_line_year l \<noteq> None) ls))
       = int (length ls) - int (length (filter (\<lambda>l. weibo_line_year l = None) ls))"
    using sum_length_filter_compl[of "\<lambda>l. weibo_line_year l = None" ls] by simp
  have w: "sum_list (map snd c) = int (length (filter (\<lambda>l. weibo_line_year l \<noteq> None) ls))
        \<and> distinct (map fst c)"
    if r: "process_weibo_jsonl ls = Inr c"
    using weibo_table_sum[OF r] by blast
  from v n w weibo_ext_table_sum[of ls] show ?thesis by blast
qed

theorem C5_post_counts_sum_witness:
  "process_data utc_year (JArr
     [JObj [(ascii ''create_time'', JInt 1609459200)],
      JObj [(ascii ''create_time'', JInt 1), (ascii ''liked_count'', JInt 5)]])
    = Inr (video_update 1970 5 0 0 0 (video_update 2021 0 0 0 0 []))
   \<and> sum_list (map (\<lambda>p. post_count (snd p))
        (video_update 1970 5 0 0 0 (video_update 2021 0 0 0 0 []))) = 2
   \<and> sum_list (map (\<lambda>p. weibo_post_count (snd p))
        (process_weibo_jsonl_ext
          [Decoded (JObj [(ascii ''created_at'', JStr (ascii ''2025-07-01 12:28:00''))]),
           Malformed,
           Decoded (JObj [(ascii ''created_at'', JStr (ascii ''2025/07/01 12:28:00''))])])) = 1
   \<and> process_weibo_jsonl
        [Decoded (JObj [(ascii ''created_at'', JStr (ascii ''2025-07-01 12:28:00''))]),
         Malformed] = Inr [(2025, 1)]
   \<and> int (length (filter (\<lambda>l. weibo_line_year l \<noteq> None)
        [Decoded (JObj [(ascii ''created_at'', JStr (ascii ''2025-07-01 12:28:00''))]),
         Malformed])) = 1"
proof -
  let ?items = "[JObj [(ascii ''create_time'', JInt 1609459200)],
      JObj [(ascii ''create_time'', JInt 1), (ascii ''liked_count'', JInt 5)]]"
  let ?t = "video_update 1970 5 0 0 0 (video_update 2021 0 0 0 0 [])"
  let ?good = "Decoded (JObj [(ascii ''created_at'', JStr (ascii ''2025-07-01 12:28:00''))])"
  let ?bad = "Decoded (JObj [(ascii ''created_at'', JStr (ascii ''2025/07/01 12:28:00''))])"
  note t1 = C5_post_counts_sum[where lt = utc_year and items = ?items and t = ?t
      and ls = "[?good, Malformed, ?bad]" and c = "[]"]
  note t2 = C5_post_counts_sum[where lt = utc_year and items = ?items and t = ?t
      and ls = "[?good, Malformed]" and c = "[(2025, 1)]"]
  have r1: "sum_list (map (\<lambda>p. post_count (snd p)) ?t) = 2"
    using t1 video_example_pass by simp
  have f: "filter (\<lambda>l. weibo_line_year l \<noteq> None) [?good, Malformed, ?bad] = [?good]"
    "filter (\<lambda>l. weibo_line_year l \<noteq> None) [?good, Malformed] = [?good]"
    by (simp_all add: weibo_example_lines weibo_example_Malformed)
  have r2: "sum_list (map (\<lambda>p. weibo_post_count (snd p))
        (process_weibo_jsonl_ext [?good, Malformed, ?bad])) = 1"
    using t1 f(1) by simp
  have r3: "sum_list (map snd [(2025::int, 1::int)])
            = int (length (filter (\<lambda>l. weibo_line_year l \<noteq> None) [?good, Malformed]))"
    using t2 weibo_example_pass by blast
  then have r4: "int (length (filter (\<lambda>l. weibo_line_year l \<noteq> None) [?good, Malformed])) = 1"
    by simp
  from video_example_pass r1 r2 weibo_example_pass r4 show ?thesis by blast
qed

text \<open>
  C4. Let the records be permuted (the two lists have the same multiset of
  records). For the video source, if \<open>process_data\<close> returns a table on one list
  it returns a table on the other, with the same entry under every year (the
  tables are equal as dictionaries) and the same CSV rows; if it raises on one
  it raises on the other. For \<open>process_weibo_jsonl\<close> of
  \<open>statistics_only_weibo.py\<close>, which always returns, the two tables have the same
  entry under every year. For the one of \<open>statistics.py\<close> it is as for the video
  source.
\<close>

theorem C4_order_independence:
  "(mset items' = mset items \<longrightarrow>
      (process_data lt (JArr items) = Inr t \<longrightarrow>
         (\<exists>t'. process_data lt (JArr items') = Inr t' \<and> map_of t' = map_of t
               \<and> distinct (map fst t') \<and> distinct (map fst t)
               \<and> save_to_csv t' = save_to_csv t))
      \<and> ((\<exists>e. process_data lt (JArr items) = Inl e) \<longrightarrow>
           (\<exists>e'. process_data lt (JArr items') = Inl e')))
   \<and> (mset ls' = mset ls \<longrightarrow>
        map_of (process_weibo_jsonl_ext ls') = map_of (process_weibo_jsonl_ext ls)
        \<and> distinct (map fst (process_weibo_jsonl_ext ls'))
        \<and> distinct (map fst (process_weibo_jsonl_ext ls))
        \<and> (process_weibo_jsonl ls = Inr c \<longrightarrow>
             (\<exists>c'. process_weibo_jsonl ls' = Inr c' \<and> map_of c' = map_of c))
        \<and> ((\<exists>e. process_weibo_jsonl ls = Inl e) \<longrightarrow>
             (\<exists>e'. process_weibo_jsonl ls' = Inl e')))"
proof -
  have v1: "\<exists>t'. process_data lt (JArr items') = Inr t' \<and> map_of t' = map_of t
               \<and> distinct (map fst t') \<and> distinct (map fst t)
               \<and> save_to_csv t' = save_to_csv t"
    if m: "mset items' = mset items" and r: "process_data lt (JArr items) = Inr t"
  proof -
    from video_permuted[OF m r] obtain t' where
      t': "process_data lt (JArr items') = Inr t'" "map_of t' = map_of t"
        "distinct (map fst t')" "distinct (map fst t)" by blast
    from save_to_csv_cong[OF t'(2,3,4)] t' show ?thesis by blast
  qed
  have v2: "\<exists>e'. process_data lt (JArr items') = Inl e'"
    if m: "mset items' = mset items" and r: "\<exists>e. process_data lt (JArr items) = Inl e"
    using r video_permuted_error[OF m] by blast
  have w1: "\<exists>c'. process_weibo_jsonl ls' = Inr c' \<and> map_of c' = map_of c"
    if m: "mset ls' = mset ls" and r: "process_weibo_jsonl ls = Inr c"
    using weibo_permuted[OF m r] .
  have w2: "\<exists>e'. process_weibo_jsonl ls' = Inl e'"
    if m: "mset ls' = mset ls" and r: "\<exists>e. process_weibo_jsonl ls = Inl e"
    using r weibo_permuted_error[OF m] by blast
  have x: "map_of (process_weibo_jsonl_ext ls') = map_of (process_weibo_jsonl_ext ls)"
    if m: "mset ls' = mset ls"
    using m by (rule weibo_ext_permuted)
  from v1 v2 w1 w2 x weibo_ext_table_sum(2)[of ls] weibo_ext_table_sum(2)[of ls']
  show ?thesis by blast
qed

theorem C4_order_independence_witness:
  "mset [JObj [(ascii ''create_time'', JInt 1), (ascii ''liked_count'', JInt 5)],
         JObj [(ascii ''create_time'', JInt 1609459200)]]
     = mset [JObj [(ascii ''create_time'', JInt 1609459200)],
             JObj [(ascii ''create_time'', JInt 1), (ascii ''liked_count'', JInt 5)]]
   \<and> process_data utc_year (JArr
        [JObj [(ascii ''create_time'', JInt 1609459200)],
         JObj [(ascii ''create_time'', JInt 1), (ascii ''liked_count'', JInt 5)]])
       = Inr (video_update 1970 5 0 0 0 (video_update 2021 0 0 0 0 []))
   \<and> (\<exists>t'. process_data utc_year (JArr
               [JObj [(ascii ''create_time'', JInt 1), (ascii ''liked_count'', JInt 5)],
                JObj [(ascii ''create_time'', JInt 1609459200)]]) = Inr t'
          \<and> map_of t' = map_of (video_update 1970 5 0 0 0 (video_update 2021 0 0 0 0 []))
          \<and> save_to_csv t' = save_to_csv (video_update 1970 5 0 0 0 (video_update 2021 0 0 0 0 [])))
   \<and> mset [Malformed,
           Decoded (JObj [(ascii ''created_at'', JStr (ascii ''2025-07-01 12:28:00''))])]
     = mset [Decoded (JObj [(ascii ''created_at'', JStr (ascii ''2025-07-01 12:28:00''))]),
             Malformed]
   \<and> map_of (process_weibo_jsonl_ext
        [Malformed,
         Decoded (JObj [(ascii ''created_at'', JStr (ascii ''2025-07-01 12:28:00''))])])
     = map_of (process_weibo_jsonl_ext
        [Decoded (JObj [(ascii ''created_at'', JStr (ascii ''2025-07-01 12:28:00''))]),
         Malformed])
   \<and> (\<exists>c'. process_weibo_jsonl
        [Malformed,
         Decoded (JObj [(ascii ''created_at'', JStr (ascii ''2025-07-01 12:28:00''))])] = Inr c'
        \<and> map_of c' = map_of [(2025, 1)])"
proof -
  let ?a = "JObj [(ascii ''create_time'', JInt 1609459200)]"
  let ?b = "JObj [(ascii ''create_time'', JInt 1), (ascii ''liked_count'', JInt 5)]"
  let ?t = "video_update 1970 5 0 0 0 (video_update 2021 0 0 0 0 [])"
  let ?good = "Decoded (JObj [(ascii ''created_at'', JStr (ascii ''2025-07-01 12:28:00''))])"
  have m1: "mset [?b, ?a] = mset [?a, ?b]" by (simp add: add_mset_commute)
  have m2: "mset [Malformed, ?good] = mset [?good, Malformed]" by (simp add: add_mset_commute)
  note t1 = C4_order_independence[where items' = "[?b, ?a]" and items = "[?a, ?b]"
      and lt = utc_year and t = ?t and ls' = "[Malformed, ?good]" and ls = "[?good, Malformed]"
      and c = "[(2025, 1)]"]
  have r1: "\<exists>t'. process_data utc_year (JArr [?b, ?a]) = Inr t'
          \<and> map_of t' = map_of ?t \<and> save_to_csv t' = save_to_csv ?t"
    using t1 m1 video_example_pass by blast
  have r2: "map_of (process_weibo_jsonl_ext [Malformed, ?good])
            = map_of (process_weibo_jsonl_ext [?good, Malformed])"
    using t1 m2 by blast
  have r3: "\<exists>c'. process_weibo_jsonl [Malformed, ?good] = Inr c'
        \<and> map_of c' = map_of [(2025, 1)]"
    using t1 m2 weibo_example_pass by blast
  from m1 video_example_pass r1 m2 r2 r3 show ?thesis by blast
qed

text \<open>
  C8. \<open>save_to_csv\<close> writes the header \<open>Year\<close>, \<open>Post Count\<close>, \<open>Total Likes\<close>,
  \<open>Total Collections\<close>, \<open>Total Comments\<close>, \<open>Total Shares\<close> and then, for each key of
  the table in ascending order, the row of the year and the five numbers of its
  entry. The rows are as many as the keys; in a table whose keys are distinct, as
  those of a dictionary are, the years of the rows increase strictly, so each
  year has exactly one row. The table that \<open>process_data\<close> returns has distinct
  keys, which are exactly the years of the items, and every entry counts at
  least one post: a year without a record has no row.
\<close>

theorem C8_video_csv_rows:
  "save_to_csv stats
     = Inr (video_header # map (\<lambda>y. video_row y (entry_of stats y)) (sort (map fst stats)))
   \<and> video_header =
       [CStr (ascii ''Year''), CStr (ascii ''Post Count''), CStr (ascii ''Total Likes''),
        CStr (ascii ''Total Collections''), CStr (ascii ''Total Comments''),
        CStr (ascii ''Total Shares'')]
   \<and> video_row y e =
       [CInt y, CInt (post_count e), CInt (total_likes e), CInt (total_collections e),
        CInt (total_comments e), CInt (total_shares e)]
   \<and> (map_of stats y = Some e \<longrightarrow> entry_of stats y = e)
   \<and> sorted (sort (map fst stats))
   \<and> set (sort (map fst stats)) = fst ` set stats
   \<and> length (sort (map fst stats)) = length stats
   \<and> (distinct (map fst stats) \<longrightarrow> sorted_wrt (<) (sort (map fst stats)))
   \<and> (process_data lt (JArr items) = Inr t \<longrightarrow>
        distinct (map fst t)
        \<and> fst ` set t = {y. \<exists>item \<in> set items. item_year lt item = Inr y}
        \<and> (\<forall>y e. map_of t y = Some e \<longrightarrow> 1 \<le> post_count e))"
proof -
  have p: "distinct (map fst t)
        \<and> fst ` set t = {y. \<exists>item \<in> set items. item_year lt item = Inr y}
        \<and> (\<forall>y e. map_of t y = Some e \<longrightarrow> 1 \<le> post_count e)"
    if r: "process_data lt (JArr items) = Inr t"
    using video_table_sum(2)[OF r] video_table_keys[OF r] video_table_count(2)[OF r]
    by blast
  have s: "sorted_wrt (<) (sort (map fst stats))" if "distinct (map fst stats)"
    using that by (rule strict_sorted_sort)
  have e: "entry_of stats y = e" if "map_of stats y = Some e"
    using that by (simp add: entry_of_def)
  have k: "set (sort (map fst stats)) = fst ` set stats" by simp
  have l: "length (sort (map fst stats)) = length stats" by simp
  have so: "sorted (sort (map fst stats))" by simp
  from save_to_csv_eq[of stats] p s e k l so show ?thesis
    by (simp add: video_header_def video_row_def)
qed

theorem C8_video_csv_rows_witness:
  "save_to_csv
     [(2021, \<lparr>post_count = 2, total_likes = 30, total_collections = 4, total_comments = 5,
              total_shares = 6\<rparr>),
      (2019, \<lparr>post_count = 1, total_likes = 7, total_collections = 0, total_comments = 8,
              total_shares = 9\<rparr>)]
    = Inr [video_header,
           [CInt 2019, CInt 1, CInt 7, CInt 0, CInt 8, CInt 9],
           [CInt 2021, CInt 2, CInt 30, CInt 4, CInt 5, CInt 6]]
   \<and> distinct (map fst
        [(2021 :: int, \<lparr>post_count = 2, total_likes = 30, total_collections = 4,
                         total_comments = 5, total_shares = 6\<rparr>),
         (2019, \<lparr>post_count = 1, total_likes = 7, total_collections = 0, total_comments = 8,
                 total_shares = 9\<rparr>)])
   \<and> sorted_wrt (<) (sort (map fst
        [(2021 :: int, \<lparr>post_count = 2, total_likes = 30, total_collections = 4,
                         total_comments = 5, total_shares = 6\<rparr>),
         (2019, \<lparr>post_count = 1, total_likes = 7, total_collections = 0, total_comments = 8,
                 total_shares = 9\<rparr>)]))
   \<and> process_data utc_year (JArr
        [JObj [(ascii ''create_time'', JInt 1609459200)],
         JObj [(ascii ''create_time'', JInt 1), (ascii ''liked_count'', JInt 5)]])
       = Inr (video_update 1970 5 0 0 0 (video_update 2021 0 0 0 0 []))
   \<and> distinct (map fst (video_update 1970 5 0 0 0 (video_update 2021 0 0 0 0 [])))
   \<and> fst ` set (video_update 1970 5 0 0 0 (video_update 2021 0 0 0 0 []))
       = {y. \<exists>item \<in> set [JObj [(ascii ''create_time'', JInt 1609459200)],
                             JObj [(ascii ''create_time'', JInt 1),
                                   (ascii ''liked_count'', JInt 5)]].
               item_year utc_year item = Inr y}"
proof -
  let ?e21 = "\<lparr>post_count = 2, total_likes = 30, total_collections = 4, total_comments = 5,
              total_shares = 6\<rparr>"
  let ?e19 = "\<lparr>post_count = 1, total_likes = 7, total_collections = 0, total_comments = 8,
              total_shares = 9\<rparr>"
  let ?stats = "[(2021 :: int, ?e21), (2019, ?e19)]"
  let ?items = "[JObj [(ascii ''create_time'', JInt 1609459200)],
         JObj [(ascii ''create_time'', JInt 1), (ascii ''liked_count'', JInt 5)]]"
  let ?t = "video_update 1970 5 0 0 0 (video_update 2021 0 0 0 0 [])"
  note t1 = C8_video_csv_rows[where stats = ?stats and y = 2021 and e = ?e21
      and lt = utc_year and items = ?items and t = ?t]
  have d: "distinct (map fst ?stats)" by simp
  have s: "sort (map fst ?stats) = [2019, 2021]" by simp
  have "save_to_csv ?stats
        = Inr (video_header # map (\<lambda>y. video_row y (entry_of ?stats y)) (sort (map fst ?stats)))"
    using t1 by (rule conjunct1)
  then have r1: "save_to_csv ?stats
    = Inr [video_header,
           [CInt 2019, CInt 1, CInt 7, CInt 0, CInt 8, CInt 9],
           [CInt 2021, CInt 2, CInt 30, CInt 4, CInt 5, CInt 6]]"
    unfolding s by (simp add: video_row_def entry_of_def)
  have r2: "sorted_wrt (<) (sort (map fst ?stats))" using t1 d by blast
  have r3: "distinct (map fst ?t)
     \<and> fst ` set ?t = {y. \<exists>item \<in> set ?items. item_year utc_year item = Inr y}"
    using t1 video_example_pass by blast
  from r1 d r2 video_example_pass r3 show ?thesis by blast
qed

end
